theory Spec2Isabelle
  imports Main "HOL-Library.Word" "HOL-Library.Signed_Division"
begin

section \<open>mochi-plumber: NIC resolution (src/mochi-plumber.c)\<close>

text \<open>
  A shallow embedding of \<^verbatim>\<open>mochi_plumber_resolve_nic\<close>, \<^verbatim>\<open>select_nic\<close>,
  \<^verbatim>\<open>select_nic_roundrobin\<close> and \<^verbatim>\<open>select_nic_random\<close>.

  The C functions talk to three collaborators: hwloc (topology), libfabric (NIC
  enumeration) and the file system under \<^verbatim>\<open>/tmp/<login>-mochi-plumber\<close>. What these
  answer is a parameter of the model (the record \<open>env\<close>); what the program does to
  them is recorded in the record \<open>world\<close>: the scratch directory, the counter files
  and the sequence of external calls made so far.

  Outside the model: other processes (a call runs alone, so \<^verbatim>\<open>flock\<close> never waits),
  reads and writes of fewer than four bytes, and a failure of the allocations that the
  source does not test (\<^verbatim>\<open>realloc\<close>, \<^verbatim>\<open>strdup\<close>, \<^verbatim>\<open>malloc\<close>). Addresses and
  policy names are C strings: lists of characters without NUL.
\<close>

subsection \<open>Data\<close>

text \<open>\<^verbatim>\<open>struct bucket { int num_nics; char** nics; }\<close>\<close>

record bucket =
  num_nics :: int
  nics :: "string list"

text \<open>
  The parts of libfabric's \<^verbatim>\<open>struct fi_info\<close> that the code reads:
  \<^verbatim>\<open>cur->nic\<close>, \<^verbatim>\<open>cur->nic->bus_attr\<close> (both may be NULL),
  \<^verbatim>\<open>bus_attr->bus_type\<close>, \<^verbatim>\<open>bus_attr->attr.pci\<close> and
  \<^verbatim>\<open>cur->domain_attr->name\<close>.
\<close>

record fi_pci_attr =
  domain_id :: nat
  bus_id :: nat
  device_id :: nat
  function_id :: nat

datatype fi_bus_type = FI_BUS_UNKNOWN | FI_BUS_PCI

record fi_bus_attr =
  bus_type :: fi_bus_type
  attr_pci :: fi_pci_attr

record fid_nic =
  bus_attr :: "fi_bus_attr option"

record fi_info =
  nic :: "fid_nic option"
  domain_attr_name :: string

text \<open>An hwloc object (a PCI device of the topology) is an opaque handle.\<close>

type_synonym hwloc_obj = nat

text \<open>
  Diagnostics written to stderr, one constructor per \<^verbatim>\<open>fprintf\<close>/\<^verbatim>\<open>perror\<close> of the
  source, carrying the arguments of the format string.
\<close>

datatype diag =
    Unknown_bucket_policy string      \<comment> \<open>\<^verbatim>\<open>unknown bucket policy "%s"\<close>\<close>
  | Fi_getinfo_failed int             \<comment> \<open>\<^verbatim>\<open>fi_getinfo: %d (%s)\<close>\<close>
  | Cant_find_in_topology string      \<comment> \<open>\<^verbatim>\<open>Error: can't find %s in hwloc topology.\<close>\<close>
  | Bucket_has_no_NICs int            \<comment> \<open>\<^verbatim>\<open>Error: bucket %d has no NICs\<close>\<close>
  | Failed_to_select_NIC              \<comment> \<open>\<^verbatim>\<open>Error: failed to select NIC.\<close>\<close>
  | Last_cpu_location_failure         \<comment> \<open>\<^verbatim>\<open>hwloc_get_last_cpu_location() failure.\<close>\<close>
  | Inconsistent_bucket_policy string \<comment> \<open>\<^verbatim>\<open>Error: inconsistent bucket policy %s.\<close>\<close>
  | Unknown_nic_policy string         \<comment> \<open>\<^verbatim>\<open>Error: unknown nic_policy "%s"\<close>\<close>
  | Failed_to_create_dir              \<comment> \<open>\<^verbatim>\<open>perror("mkdir")\<close>, \<^verbatim>\<open>Error: failed to create %s\<close>\<close>
  | Failed_to_open int                \<comment> \<open>\<^verbatim>\<open>perror("open")\<close>, \<^verbatim>\<open>Error: failed to open %s\<close>\<close>
  | Failed_to_read int                \<comment> \<open>\<^verbatim>\<open>perror("pread")\<close>, \<^verbatim>\<open>Error: failed to read %s\<close>\<close>
  | Failed_to_write int               \<comment> \<open>\<^verbatim>\<open>perror("pwrite")\<close>, \<^verbatim>\<open>Error: failed to write %s\<close>\<close>

text \<open>
  The external calls of the source that acquire or release a resource, touch the file
  system or print. \<open>Sys_close\<close> is listed because it is the call that releases a
  descriptor; the source contains no call of it.
\<close>

datatype event =
    Topology_init | Topology_load | Topology_destroy
  | Calloc_buckets | Free_buckets
  | Fi_allocinfo | Fi_freeinfo_hints
  | Fi_getinfo int             \<comment> \<open>the value returned; the list is allocated when it is 0\<close>
  | Fi_freeinfo_info
  | Bitmap_alloc | Bitmap_free
  | Sys_mkdir
  | Sys_open int int           \<comment> \<open>bucket index of the path, descriptor returned\<close>
  | Sys_flock_ex int bool      \<comment> \<open>descriptor, whether the lock was acquired\<close>
  | Sys_flock_un int
  | Sys_pread int
  | Sys_pwrite int
  | Sys_close int
  | Stderr diag

text \<open>
  Ways in which the C program leaves defined behaviour or aborts: a failed
  \<^verbatim>\<open>assert\<close>, an array access outside the array, signed overflow of \<^verbatim>\<open>int\<close>,
  \<^verbatim>\<open>%\<close> by zero and a read of the uninitialised \<^verbatim>\<open>selected_nic\<close>.
\<close>

datatype fault = Assert_failed | Out_of_bounds | Signed_overflow | Division_by_zero | Uninitialised

text \<open>
  A C function of the source returns an \<^verbatim>\<open>int\<close> status and sets an out parameter
  on some paths: \<open>Inr (status, out)\<close>, with \<open>out = None\<close> where the out parameter is
  left unset.
\<close>

type_synonym 'a ret = "fault + int \<times> 'a option"

subsection \<open>The world and the environment\<close>

text \<open>
  A counter file \<^verbatim>\<open>/tmp/<login>-mochi-plumber/<bucket_idx>\<close> is absent (\<open>None\<close>),
  present and empty (\<open>Some None\<close>) or holds one \<^verbatim>\<open>int\<close> of four bytes
  (\<open>Some (Some v)\<close>). The program writes these files four bytes at a time at offset 0,
  so no other length arises from it. The path is made of the login name and the bucket
  index; the model follows one user, so the bucket index identifies the file.
\<close>

record world =
  dir_exists :: bool
  files :: "int \<Rightarrow> 32 word option option"
  trace :: "event list"

datatype mkdir_error = EEXIST | EOTHER

record env =
  \<comment> \<open>hwloc\<close>
  nodeset_weight :: int                 \<comment> \<open>\<^verbatim>\<open>hwloc_bitmap_weight\<close> of the complete nodeset\<close>
  get_pcidev_by_busid :: "fi_pci_attr \<Rightarrow> hwloc_obj option"
  ancestor_first_node :: "hwloc_obj \<Rightarrow> int"  \<comment> \<open>\<^verbatim>\<open>hwloc_bitmap_first\<close> of the non-I/O ancestor's nodeset\<close>
  bitmap_alloc_ok :: bool
  last_cpu_location_ret :: int
  last_numa_first :: int                \<comment> \<open>\<^verbatim>\<open>hwloc_bitmap_first(last_numa)\<close>\<close>
  \<comment> \<open>libc and libfabric\<close>
  calloc_ok :: bool
  fi_allocinfo_ok :: bool
  fi_getinfo_ret :: int
  fi_getinfo_list :: "fi_info list"
  rand_value :: nat                     \<comment> \<open>\<^verbatim>\<open>rand()\<close> after \<^verbatim>\<open>srand(getpid())\<close>\<close>
  \<comment> \<open>file system\<close>
  mkdir_fails :: bool                   \<comment> \<open>\<^verbatim>\<open>mkdir\<close> fails with an errno other than EEXIST\<close>
  open_ret :: int                       \<comment> \<open>the descriptor, negative when \<^verbatim>\<open>open\<close> fails\<close>
  flock_ok :: bool
  pread_ok :: bool
  pwrite_ok :: bool

definition emit :: "event list \<Rightarrow> world \<Rightarrow> world" where
  "emit es w = w\<lparr>trace := trace w @ es\<rparr>"

definition INT_MAX :: int where
  "INT_MAX = 2147483647"

subsection \<open>System calls on the counter store\<close>

text \<open>\<^verbatim>\<open>mkdir(tokenpath, 0700)\<close>: the return value and \<^verbatim>\<open>errno\<close>.\<close>

definition sys_mkdir :: "env \<Rightarrow> world \<Rightarrow> (int \<times> mkdir_error) \<times> world" where
  "sys_mkdir e w =
     (if mkdir_fails e then ((- 1, EOTHER), emit [Sys_mkdir] w)
      else if dir_exists w then ((- 1, EEXIST), emit [Sys_mkdir] w)
      else ((0, EOTHER), emit [Sys_mkdir] (w\<lparr>dir_exists := True\<rparr>)))"

text \<open>\<^verbatim>\<open>open(tokenpath, O_RDWR|O_CREAT|O_SYNC, 0600)\<close>: creates the file when absent.\<close>

definition sys_open :: "env \<Rightarrow> int \<Rightarrow> world \<Rightarrow> int \<times> world" where
  "sys_open e bucket_idx w =
     (if open_ret e < 0 then (open_ret e, emit [Sys_open bucket_idx (open_ret e)] w)
      else (open_ret e,
            emit [Sys_open bucket_idx (open_ret e)]
              (case files w bucket_idx of
                 None \<Rightarrow> w\<lparr>files := (files w)(bucket_idx := Some None)\<rparr>
               | Some c \<Rightarrow> w)))"

text \<open>\<^verbatim>\<open>flock(fd, LOCK_EX)\<close>: fails on a bad descriptor (EBADF) or when the system says so.\<close>

definition sys_flock_ex :: "env \<Rightarrow> int \<Rightarrow> world \<Rightarrow> int \<times> world" where
  "sys_flock_ex e fd w =
     (if fd < 0 \<or> \<not> flock_ok e then (- 1, emit [Sys_flock_ex fd False] w)
      else (0, emit [Sys_flock_ex fd True] w))"

definition sys_flock_un :: "int \<Rightarrow> world \<Rightarrow> world" where
  "sys_flock_un fd w = emit [Sys_flock_un fd] w"

text \<open>
  \<^verbatim>\<open>pread(fd, &nic_idx, sizeof(nic_idx), 0)\<close>: the return value and the new
  \<^verbatim>\<open>nic_idx\<close>. An empty file reads 0 bytes and leaves \<^verbatim>\<open>nic_idx\<close> as it was.
\<close>

definition sys_pread :: "env \<Rightarrow> int \<Rightarrow> int \<Rightarrow> int \<Rightarrow> world \<Rightarrow> (int \<times> int) \<times> world" where
  "sys_pread e fd bucket_idx nic_idx w =
     (if fd < 0 \<or> \<not> pread_ok e then ((- 1, nic_idx), emit [Sys_pread fd] w)
      else (case files w bucket_idx of
              Some (Some v) \<Rightarrow> ((4, sint v), emit [Sys_pread fd] w)
            | _ \<Rightarrow> ((0, nic_idx), emit [Sys_pread fd] w)))"

text \<open>\<^verbatim>\<open>pwrite(fd, &nic_idx, sizeof(nic_idx), 0)\<close>\<close>

definition sys_pwrite :: "env \<Rightarrow> int \<Rightarrow> int \<Rightarrow> int \<Rightarrow> world \<Rightarrow> int \<times> world" where
  "sys_pwrite e fd bucket_idx nic_idx w =
     (if fd < 0 \<or> \<not> pwrite_ok e then (- 1, emit [Sys_pwrite fd] w)
      else (4, emit [Sys_pwrite fd] (w\<lparr>files := (files w)(bucket_idx := Some (Some (word_of_int nic_idx)))\<rparr>)))"

subsection \<open>\<^verbatim>\<open>select_nic_roundrobin\<close> (lines 245-294)\<close>

text \<open>
  \<^verbatim>\<open>bucket->nics[nic_idx]\<close>: an index outside the array is undefined behaviour.
\<close>

definition nics_at :: "bucket \<Rightarrow> int \<Rightarrow> fault + string" where
  "nics_at b i = (if 0 \<le> i \<and> nat i < length (nics b) then Inr (nics b ! nat i) else Inl Out_of_bounds)"

definition select_nic_roundrobin :: "env \<Rightarrow> int \<Rightarrow> bucket \<Rightarrow> world \<Rightarrow> string ret \<times> world" where
  "select_nic_roundrobin e bucket_idx b w0 =
     (let nic_idx = - 1;
          ((ret, errno), w1) = sys_mkdir e w0
      in if ret \<noteq> 0 \<and> errno \<noteq> EEXIST then
           (Inr (- 1, None), emit [Stderr Failed_to_create_dir] w1)
         else
           let (fd, w2) = sys_open e bucket_idx w1;
               w3 = (if fd < 0 then emit [Stderr (Failed_to_open bucket_idx)] w2 else w2);
               (_, w4) = sys_flock_ex e fd w3;
               ((ret, nic_idx), w5) = sys_pread e fd bucket_idx nic_idx w4
           in if ret < 0 then
                (Inr (- 1, None), sys_flock_un fd (emit [Stderr (Failed_to_read bucket_idx)] w5))
              else if nic_idx + 1 > INT_MAX then (Inl Signed_overflow, w5)
              else if num_nics b = 0 then (Inl Division_by_zero, w5)
              else
                let nic_idx = (nic_idx + 1) smod (num_nics b);
                    (ret, w6) = sys_pwrite e fd bucket_idx nic_idx w5
                in if ret < 0 then
                     (Inr (- 1, None), sys_flock_un fd (emit [Stderr (Failed_to_write bucket_idx)] w6))
                   else
                     let w7 = sys_flock_un fd w6
                     in (case nics_at b nic_idx of
                           Inl f \<Rightarrow> (Inl f, w7)
                         | Inr n \<Rightarrow> (Inr (0, Some n), w7)))"

subsection \<open>\<^verbatim>\<open>select_nic_random\<close> (lines 296-307)\<close>

text \<open>
  \<^verbatim>\<open>srand(getpid()); nic_idx = rand() % bucket->num_nics;\<close> where \<^verbatim>\<open>rand()\<close> is
  not negative.
\<close>

definition select_nic_random :: "env \<Rightarrow> int \<Rightarrow> bucket \<Rightarrow> world \<Rightarrow> string ret \<times> world" where
  "select_nic_random e bucket_idx b w =
     (if num_nics b = 0 then (Inl Division_by_zero, w)
      else
        let nic_idx = int (rand_value e) smod (num_nics b)
        in (case nics_at b nic_idx of
              Inl f \<Rightarrow> (Inl f, w)
            | Inr n \<Rightarrow> (Inr (0, Some n), w)))"

subsection \<open>\<^verbatim>\<open>select_nic\<close> (lines 188-243)\<close>

text \<open>
  Lines 194-223, "figure out which bucket to draw from": a bucket index
  (\<open>Inr (Inr bucket_idx)\<close>), an early \<^verbatim>\<open>return(-1)\<close> (\<open>Inr (Inl (- 1))\<close>) or a failed
  \<^verbatim>\<open>assert\<close>.
\<close>

definition select_nic_bucket_idx ::
  "env \<Rightarrow> string \<Rightarrow> int \<Rightarrow> world \<Rightarrow> (fault + int + int) \<times> world" where
  "select_nic_bucket_idx e bucket_policy nbuckets w =
     (if nbuckets = 1 then (Inr (Inr 0), w)
      else if bucket_policy = ''numa'' then
        (if \<not> bitmap_alloc_ok e then (Inl Assert_failed, w)
         else
           let w1 = emit [Bitmap_alloc, Bitmap_alloc] w
           in if last_cpu_location_ret e < 0 then
                (Inr (Inl (- 1)),
                 emit [Bitmap_free, Bitmap_free, Stderr Last_cpu_location_failure] w1)
              else
                let bucket_idx = last_numa_first e
                in if \<not> bucket_idx < nbuckets then (Inl Assert_failed, w1)
                   else (Inr (Inr bucket_idx), emit [Bitmap_free, Bitmap_free] w1))
      else (Inr (Inl (- 1)), emit [Stderr (Inconsistent_bucket_policy bucket_policy)] w))"

text \<open>\<^verbatim>\<open>buckets[bucket_idx]\<close>\<close>

definition buckets_at :: "bucket list \<Rightarrow> int \<Rightarrow> fault + bucket" where
  "buckets_at buckets i =
     (if 0 \<le> i \<and> nat i < length buckets then Inr (buckets ! nat i) else Inl Out_of_bounds)"

definition select_nic ::
  "env \<Rightarrow> string \<Rightarrow> string \<Rightarrow> int \<Rightarrow> bucket list \<Rightarrow> world \<Rightarrow> string ret \<times> world" where
  "select_nic e bucket_policy nic_policy nbuckets buckets w =
     (case select_nic_bucket_idx e bucket_policy nbuckets w of
        (Inl f, w1) \<Rightarrow> (Inl f, w1)
      | (Inr (Inl ret), w1) \<Rightarrow> (Inr (ret, None), w1)
      | (Inr (Inr bucket_idx), w1) \<Rightarrow>
          (case buckets_at buckets bucket_idx of
             Inl f \<Rightarrow> (Inl f, w1)
           | Inr b \<Rightarrow>
               if num_nics b = 1 then
                 (case nics_at b 0 of
                    Inl f \<Rightarrow> (Inl f, w1)
                  | Inr n \<Rightarrow> (Inr (0, Some n), w1))
               else if nic_policy = ''roundrobin'' then select_nic_roundrobin e bucket_idx b w1
               else if nic_policy = ''random'' then select_nic_random e bucket_idx b w1
               else (Inr (- 1, None), emit [Stderr (Unknown_nic_policy nic_policy)] w1)))"

subsection \<open>\<^verbatim>\<open>mochi_plumber_resolve_nic\<close> (lines 31-186)\<close>

text \<open>
  The condition of line 121: the entry has a NIC with bus attributes of type PCI.
  The result is \<^verbatim>\<open>cur->nic->bus_attr->attr.pci\<close>.
\<close>

definition pci_of :: "fi_info \<Rightarrow> fi_pci_attr option" where
  "pci_of cur =
     (case nic cur of
        None \<Rightarrow> None
      | Some n \<Rightarrow>
          (case bus_attr n of
             None \<Rightarrow> None
           | Some ba \<Rightarrow> if bus_type ba = FI_BUS_PCI then Some (attr_pci ba) else None))"

text \<open>
  Lines 149-152: \<^verbatim>\<open>num_nics++\<close>, \<^verbatim>\<open>realloc\<close> of the array to the new size and
  \<^verbatim>\<open>nics[num_nics-1] = strdup(name)\<close>. (\<^verbatim>\<open>realloc\<close>, \<^verbatim>\<open>strdup\<close> and the final
  \<^verbatim>\<open>malloc\<close> are taken to succeed: the source does not test them.)
\<close>

definition add_nic :: "bucket \<Rightarrow> string \<Rightarrow> bucket" where
  "add_nic b name = b\<lparr>num_nics := num_nics b + 1, nics := nics b @ [name]\<rparr>"

text \<open>
  The loop of lines 120-154 over the list returned by \<^verbatim>\<open>fi_getinfo\<close>. It ends with
  the buckets (\<open>Inr (Inr buckets)\<close>), leaves early at a device that the topology does
  not know (\<open>Inr (Inl name)\<close>, lines 129-136), or writes outside \<^verbatim>\<open>buckets\<close>.
\<close>

fun assign_buckets :: "env \<Rightarrow> int \<Rightarrow> fi_info list \<Rightarrow> bucket list \<Rightarrow> fault + string + bucket list" where
  "assign_buckets e nbuckets [] buckets = Inr (Inr buckets)"
| "assign_buckets e nbuckets (cur # rest) buckets =
     (case pci_of cur of
        None \<Rightarrow> assign_buckets e nbuckets rest buckets
      | Some pci \<Rightarrow>
          (case get_pcidev_by_busid e pci of
             None \<Rightarrow> Inr (Inl (domain_attr_name cur))
           | Some pci_dev \<Rightarrow>
               let bucket_idx = (if nbuckets = 1 then 0 else ancestor_first_node e pci_dev)
               in (case buckets_at buckets bucket_idx of
                     Inl f \<Rightarrow> Inl f
                   | Inr b \<Rightarrow>
                       assign_buckets e nbuckets rest
                         (buckets[nat bucket_idx := add_nic b (domain_attr_name cur)]))))"

text \<open>
  The loop of lines 158-166: the first \<open>i\<close> with \<^verbatim>\<open>buckets[i].num_nics < 1\<close>, counting
  from \<open>i\<close>.
\<close>

fun first_empty_bucket :: "bucket list \<Rightarrow> int \<Rightarrow> int option" where
  "first_empty_bucket [] i = None"
| "first_empty_bucket (b # bs) i =
     (if num_nics b < 1 then Some i else first_empty_bucket bs (i + 1))"

text \<open>
  Lines 71-86: the number of buckets, \<open>None\<close> for a policy that is neither
  \<^verbatim>\<open>"all"\<close> nor \<^verbatim>\<open>"numa"\<close>.
\<close>

definition nbuckets_of :: "env \<Rightarrow> string \<Rightarrow> int option" where
  "nbuckets_of e bucket_policy =
     (if bucket_policy = ''all'' then Some 1
      else if bucket_policy = ''numa'' then Some (nodeset_weight e)
      else None)"

text \<open>
  Lines 47-63: the two tests that decide whether the address is rewritten.
  \<^verbatim>\<open>strncmp(in_address, "cxi", 3) != 0\<close> compares the first three characters;
  after it the address has at least three characters, so both index expressions of
  line 57 are inside the string.
\<close>

definition not_cxi :: "string \<Rightarrow> bool" where
  "not_cxi in_address \<longleftrightarrow> take 3 in_address \<noteq> ''cxi'' \<and> take 7 in_address \<noteq> ''ofi+cxi''"

definition already_specific :: "string \<Rightarrow> bool" where
  "already_specific in_address \<longleftrightarrow>
     in_address ! (length in_address - 1) \<noteq> CHR ''/'' \<or>
     in_address ! (length in_address - 2) \<noteq> CHR ''/''"

text \<open>
  Lines 65-155, from "get topology" to the \<^verbatim>\<open>fi_freeinfo(info)\<close> after the loop:
  \<open>Inr (Inr (nbuckets, buckets))\<close> when the buckets are built, \<open>Inr (Inl ret)\<close> for an
  early \<^verbatim>\<open>return(ret)\<close>. A negative \<^verbatim>\<open>nbuckets\<close> converts to a size that
  \<^verbatim>\<open>calloc\<close> cannot serve.
\<close>

definition build_buckets ::
  "env \<Rightarrow> string \<Rightarrow> world \<Rightarrow> (fault + int + int \<times> bucket list) \<times> world" where
  "build_buckets e bucket_policy w0 =
     (let w1 = emit [Topology_init, Topology_load] w0
      in (case nbuckets_of e bucket_policy of
            None \<Rightarrow>
              (Inr (Inl (- 1)),
               emit [Stderr (Unknown_bucket_policy bucket_policy), Topology_destroy] w1)
          | Some nbuckets \<Rightarrow>
              if nbuckets < 0 \<or> \<not> calloc_ok e then
                (Inr (Inl (- 1)), emit [Topology_destroy] w1)
              else
                let buckets = replicate (nat nbuckets) \<lparr>num_nics = 0, nics = []\<rparr>;
                    w2 = emit [Calloc_buckets] w1
                in if \<not> fi_allocinfo_ok e then (Inl Assert_failed, w2)
                   else
                     let w3 = emit [Fi_allocinfo, Fi_getinfo (fi_getinfo_ret e)] w2
                     in if fi_getinfo_ret e \<noteq> 0 then
                          (Inr (Inl (fi_getinfo_ret e)),
                           emit [Stderr (Fi_getinfo_failed (fi_getinfo_ret e)),
                                 Fi_freeinfo_hints, Free_buckets, Topology_destroy] w3)
                        else
                          let w4 = emit [Fi_freeinfo_hints] w3
                          in (case assign_buckets e nbuckets (fi_getinfo_list e) buckets of
                                Inl f \<Rightarrow> (Inl f, w4)
                              | Inr (Inl name) \<Rightarrow>
                                  (Inr (Inl (- 1)),
                                   emit [Stderr (Cant_find_in_topology name),
                                         Fi_freeinfo_info, Free_buckets, Topology_destroy] w4)
                              | Inr (Inr buckets) \<Rightarrow>
                                  (Inr (Inr (nbuckets, buckets)), emit [Fi_freeinfo_info] w4))))"

text \<open>
  Lines 157-185, from the sanity check to the new address, on the buckets built above.
\<close>

definition select_and_compose ::
  "env \<Rightarrow> string \<Rightarrow> string \<Rightarrow> string \<Rightarrow> int \<Rightarrow> bucket list \<Rightarrow> world \<Rightarrow> string ret \<times> world" where
  "select_and_compose e in_address bucket_policy nic_policy nbuckets buckets w5 =
     (case first_empty_bucket buckets 0 of
        Some i \<Rightarrow>
          (Inr (- 1, None),
           emit [Stderr (Bucket_has_no_NICs i), Free_buckets, Topology_destroy] w5)
      | None \<Rightarrow>
          (case select_nic e bucket_policy nic_policy nbuckets buckets w5 of
             (Inl f, w6) \<Rightarrow> (Inl f, w6)
           | (Inr (ret, selected_nic), w6) \<Rightarrow>
               if ret < 0 then
                 (Inr (- 1, None),
                  emit [Stderr Failed_to_select_NIC, Free_buckets, Topology_destroy] w6)
               else
                 let w7 = emit [Free_buckets, Topology_destroy] w6
                 in (case selected_nic of
                       None \<Rightarrow> (Inl Uninitialised, w7)
                     | Some n \<Rightarrow> (Inr (0, Some (in_address @ n)), w7))))"

definition mochi_plumber_resolve_nic ::
  "env \<Rightarrow> string \<Rightarrow> string \<Rightarrow> string \<Rightarrow> world \<Rightarrow> string ret \<times> world" where
  "mochi_plumber_resolve_nic e in_address bucket_policy nic_policy w0 =
     (if not_cxi in_address then (Inr (0, Some in_address), w0)
      else if already_specific in_address then (Inr (0, Some in_address), w0)
      else
        (case build_buckets e bucket_policy w0 of
           (Inl f, w) \<Rightarrow> (Inl f, w)
         | (Inr (Inl ret), w) \<Rightarrow> (Inr (ret, None), w)
         | (Inr (Inr (nbuckets, buckets)), w5) \<Rightarrow>
             select_and_compose e in_address bucket_policy nic_policy nbuckets buckets w5))"

subsection \<open>Notions used in the statements\<close>

text \<open>
  The current value of the counter of a bucket: the \<^verbatim>\<open>int\<close> in its file, and -1
  for a file that is empty or was never written.
\<close>

definition counter_value :: "world \<Rightarrow> int \<Rightarrow> int" where
  "counter_value w bucket_idx =
     (case files w bucket_idx of Some (Some v) \<Rightarrow> sint v | _ \<Rightarrow> - 1)"

text \<open>The calls that go to the file system.\<close>

fun fs_event :: "event \<Rightarrow> bool" where
  "fs_event Sys_mkdir = True"
| "fs_event (Sys_open i fd) = True"
| "fs_event (Sys_flock_ex fd ok) = True"
| "fs_event (Sys_flock_un fd) = True"
| "fs_event (Sys_pread fd) = True"
| "fs_event (Sys_pwrite fd) = True"
| "fs_event (Sys_close fd) = True"
| "fs_event _ = False"

text \<open>
  \<open>k\<close> successive calls of \<^verbatim>\<open>select_nic_roundrobin\<close> on one bucket: what each call
  returns, and the value of the counter after it.
\<close>

fun roundrobin_calls :: "nat \<Rightarrow> env \<Rightarrow> int \<Rightarrow> bucket \<Rightarrow> world \<Rightarrow> (string ret \<times> int) list" where
  "roundrobin_calls 0 e bucket_idx b w = []"
| "roundrobin_calls (Suc k) e bucket_idx b w =
     (case select_nic_roundrobin e bucket_idx b w of
        (r, w') \<Rightarrow> (r, counter_value w' bucket_idx) # roundrobin_calls k e bucket_idx b w')"

text \<open>
  The spec's words for the addresses that are rewritten: the address names the
  supported transport (prefix \<^verbatim>\<open>cxi\<close> or \<^verbatim>\<open>ofi+cxi\<close>) and ends with the empty
  authority marker \<^verbatim>\<open>//\<close>.
\<close>

definition supported_transport :: "string \<Rightarrow> bool" where
  "supported_transport a \<longleftrightarrow> (\<exists>r. a = ''cxi'' @ r) \<or> (\<exists>r. a = ''ofi+cxi'' @ r)"

definition unresolved_form :: "string \<Rightarrow> bool" where
  "unresolved_form a \<longleftrightarrow> (\<exists>p. a = p @ ''//'')"

text \<open>
  The affinity domain that the topology gives to an enumerated NIC: its PCI location,
  looked up in the topology, then the first node of the non-I/O ancestor's nodeset.
\<close>

definition affinity_domain :: "env \<Rightarrow> fi_info \<Rightarrow> int option" where
  "affinity_domain e cur =
     (case pci_of cur of
        None \<Rightarrow> None
      | Some pci \<Rightarrow> map_option (ancestor_first_node e) (get_pcidev_by_busid e pci))"

text \<open>
  An enumerated NIC with PCI bus data whose device the topology does not know
  (\<^verbatim>\<open>hwloc_get_pcidev_by_busid\<close> returns NULL).
\<close>

definition not_in_topology :: "env \<Rightarrow> fi_info \<Rightarrow> bool" where
  "not_in_topology e cur =
     (case pci_of cur of None \<Rightarrow> False | Some pci \<Rightarrow> get_pcidev_by_busid e pci = None)"

text \<open>
  The bucket index that lines 121-147 compute for one entry of the list: none for an
  entry without PCI bus data or without a device in the topology, 0 when there is one
  bucket, the affinity domain otherwise.
\<close>

definition bucket_of :: "env \<Rightarrow> int \<Rightarrow> fi_info \<Rightarrow> int option" where
  "bucket_of e nbuckets cur =
     (case pci_of cur of
        None \<Rightarrow> None
      | Some pci \<Rightarrow>
          (case get_pcidev_by_busid e pci of
             None \<Rightarrow> None
           | Some pci_dev \<Rightarrow> Some (if nbuckets = 1 then 0 else ancestor_first_node e pci_dev)))"

text \<open>The names of the entries of a list that go to bucket \<open>i\<close>, in the order of the list.\<close>

definition names_for :: "env \<Rightarrow> int \<Rightarrow> fi_info list \<Rightarrow> int \<Rightarrow> string list" where
  "names_for e nbuckets infos i =
     map domain_attr_name (filter (\<lambda>cur. bucket_of e nbuckets cur = Some i) infos)"

text \<open>
  The persistent state and the calls to the file system are the same in two worlds:
  the counter files, the scratch directory and the file-system calls of the trace.
\<close>

definition fs_same :: "world \<Rightarrow> world \<Rightarrow> bool" where
  "fs_same w w' \<longleftrightarrow>
     files w' = files w \<and> dir_exists w' = dir_exists w \<and>
     filter fs_event (trace w') = filter fs_event (trace w)"

text \<open>
  Whether the process holds the lock of a counter file after a sequence of calls:
  a successful \<^verbatim>\<open>flock(fd, LOCK_EX)\<close> takes it, \<^verbatim>\<open>flock(fd, LOCK_UN)\<close> gives it back.
\<close>

fun holds_lock :: "bool \<Rightarrow> event list \<Rightarrow> bool" where
  "holds_lock h [] = h"
| "holds_lock h (Sys_flock_ex fd ok # es) = holds_lock (h \<or> ok) es"
| "holds_lock h (Sys_flock_un fd # es) = holds_lock False es"
| "holds_lock h (ev # es) = holds_lock h es"

text \<open>
  A sequence of calls releases the process-local resources as often as it acquires
  them: the topology, the bucket array, the hints, the enumeration results (allocated
  by a \<^verbatim>\<open>fi_getinfo\<close> that returns 0) and the bitmaps.
\<close>

definition balanced :: "event list \<Rightarrow> bool" where
  "balanced es \<longleftrightarrow>
     count_list es Topology_init = count_list es Topology_destroy \<and>
     count_list es Calloc_buckets = count_list es Free_buckets \<and>
     count_list es Fi_allocinfo = count_list es Fi_freeinfo_hints \<and>
     count_list es (Fi_getinfo 0) = count_list es Fi_freeinfo_info \<and>
     count_list es Bitmap_alloc = count_list es Bitmap_free"

subsection \<open>A node for the examples\<close>

text \<open>
  A node with two NUMA domains whose topology knows the PCI buses 0 to 3 (bus \<open>n\<close> on
  domain \<open>n mod 2\<close>), where every call succeeds and \<^verbatim>\<open>open\<close> returns descriptor 3.
\<close>

definition world0 :: world where
  "world0 = \<lparr>dir_exists = False, files = (\<lambda>i. None), trace = []\<rparr>"

definition pci_nic :: "string \<Rightarrow> nat \<Rightarrow> fi_info" where
  "pci_nic name bus =
     \<lparr>nic = Some \<lparr>bus_attr = Some \<lparr>bus_type = FI_BUS_PCI,
         attr_pci = \<lparr>domain_id = 0, bus_id = bus, device_id = 0, function_id = 0\<rparr>\<rparr>\<rparr>,
      domain_attr_name = name\<rparr>"

definition node :: "fi_info list \<Rightarrow> env" where
  "node infos =
     \<lparr>nodeset_weight = 2,
      get_pcidev_by_busid = (\<lambda>p. if bus_id p < 4 then Some (bus_id p) else None),
      ancestor_first_node = (\<lambda>d. int (d mod 2)),
      bitmap_alloc_ok = True,
      last_cpu_location_ret = 0,
      last_numa_first = 0,
      calloc_ok = True,
      fi_allocinfo_ok = True,
      fi_getinfo_ret = 0,
      fi_getinfo_list = infos,
      rand_value = 0,
      mkdir_fails = False,
      open_ret = 3,
      flock_ok = True,
      pread_ok = True,
      pwrite_ok = True\<rparr>"

section \<open>Properties\<close>

subsection \<open>Auxiliary facts\<close>

lemma files_emit [simp]: "files (emit es w) = files w"
  and dir_exists_emit [simp]: "dir_exists (emit es w) = dir_exists w"
  and trace_emit [simp]: "trace (emit es w) = trace w @ es"
  by (simp_all add: emit_def)

lemma smod_nonneg: "0 \<le> (a::int) \<Longrightarrow> 0 < n \<Longrightarrow> a smod n = a mod n"
  by (cases "a = 0") (simp_all add: signed_modulo_int_def)

lemmas sys_defs = sys_mkdir_def sys_open_def sys_flock_ex_def sys_flock_un_def sys_pread_def sys_pwrite_def

lemma rr_success_cases:
  assumes "select_nic_roundrobin e i b w = (Inr (st, out), w')" "0 \<le> st"
  shows "st = 0 \<and> counter_value w i + 1 \<le> INT_MAX \<and> num_nics b \<noteq> 0 \<and>
         nics_at b ((counter_value w i + 1) smod num_nics b) = Inr (the out) \<and> out \<noteq> None \<and>
         files w' = (files w)(i := Some (Some (word_of_int ((counter_value w i + 1) smod num_nics b))))"
  using assms
  by (auto simp: select_nic_roundrobin_def counter_value_def sys_defs Let_def
      split: option.splits sum.splits prod.splits if_splits)

lemma sint_word_of_int_32:
  "0 \<le> k \<Longrightarrow> k \<le> INT_MAX \<Longrightarrow> sint (word_of_int k :: 32 word) = k"
  by (simp add: int_word_sint INT_MAX_def)

lemma counter_value_written:
  assumes "files w' = (files w)(i := Some (Some (word_of_int k)))" "0 \<le> k" "k \<le> INT_MAX"
  shows "counter_value w' i = k"
  using assms by (simp add: counter_value_def sint_word_of_int_32)

lemma next_bounds:
  assumes "- 1 \<le> (c::int)" "0 < n"
  shows "(c + 1) smod n = (c + 1) mod n" "0 \<le> (c + 1) mod n" "(c + 1) mod n < n" "(c + 1) mod n \<le> c + 1"
  using assms by (simp_all add: smod_nonneg zmod_le_nonneg_dividend)

lemma rr_step:
  assumes io: "\<not> mkdir_fails e" "0 \<le> open_ret e" "pread_ok e" "pwrite_ok e"
    and cur: "- 1 \<le> counter_value w i" "counter_value w i < INT_MAX"
    and n: "0 < num_nics b" "num_nics b = int (length (nics b))"
  shows "fst (select_nic_roundrobin e i b w) = Inr (0, Some (nics b ! nat ((counter_value w i + 1) mod num_nics b)))"
    and "files (snd (select_nic_roundrobin e i b w)) = (files w)(i := Some (Some (word_of_int ((counter_value w i + 1) mod num_nics b))))"
    and "counter_value (snd (select_nic_roundrobin e i b w)) i = (counter_value w i + 1) mod num_nics b"
proof -
  let ?next = "(counter_value w i + 1) mod num_nics b"
  note nb = next_bounds [OF cur(1) n(1)]
  have "nat ?next < length (nics b)"
    using nb(2,3) n(2) by linarith
  then have at: "nics_at b ?next = Inr (nics b ! nat ?next)"
    using nb(2) by (simp add: nics_at_def)
  show 1: "fst (select_nic_roundrobin e i b w) = Inr (0, Some (nics b ! nat ?next))"
    using io cur n(1) at nb(1)
    by (auto simp: select_nic_roundrobin_def counter_value_def sys_defs Let_def
        split: option.splits prod.splits)
  show 2: "files (snd (select_nic_roundrobin e i b w)) = (files w)(i := Some (Some (word_of_int ?next)))"
    using io cur n(1) at nb(1)
    by (auto simp: select_nic_roundrobin_def counter_value_def sys_defs Let_def
        split: option.splits prod.splits)
  show "counter_value (snd (select_nic_roundrobin e i b w)) i = ?next"
    using counter_value_written [OF 2 nb(2)] nb(4) cur(2) by linarith
qed

lemma rr_calls_from:
  assumes io: "\<not> mkdir_fails e" "0 \<le> open_ret e" "pread_ok e" "pwrite_ok e"
    and n: "0 < num_nics b" "num_nics b = int (length (nics b))" "num_nics b \<le> INT_MAX"
    and cur: "- 1 \<le> counter_value w i" "counter_value w i < num_nics b"
  shows "roundrobin_calls k e i b w =
         map (\<lambda>j. (Inr (0, Some (nics b ! nat ((counter_value w i + 1 + int j) mod num_nics b))),
                    (counter_value w i + 1 + int j) mod num_nics b)) [0..<k]"
  using cur
proof (induction k arbitrary: w)
  case 0
  show ?case by simp
next
  case (Suc k)
  let ?c = "counter_value w i"
  let ?w' = "snd (select_nic_roundrobin e i b w)"
  have lt: "?c < INT_MAX" using Suc.prems(2) n(3) by linarith
  note st = rr_step [OF io Suc.prems(1) lt n(1,2)]
  note nb = next_bounds [OF Suc.prems(1) n(1)]
  have c': "- 1 \<le> counter_value ?w' i" "counter_value ?w' i < num_nics b"
    using st(3) nb(2,3) by simp_all
  have shift: "(counter_value ?w' i + 1 + int j) mod num_nics b = (?c + 1 + int (Suc j)) mod num_nics b" for j
  proof -
    have "(counter_value ?w' i + 1 + int j) mod num_nics b =
          ((?c + 1) mod num_nics b + (1 + int j)) mod num_nics b"
      unfolding st(3) by (simp add: add.assoc)
    also have "\<dots> = ((?c + 1) + (1 + int j)) mod num_nics b"
      by (rule mod_add_left_eq)
    also have "(?c + 1) + (1 + int j) = ?c + 1 + int (Suc j)"
      by simp
    finally show ?thesis .
  qed
  have tl: "roundrobin_calls k e i b ?w' =
        map (\<lambda>j. (Inr (0, Some (nics b ! nat ((?c + 1 + int (Suc j)) mod num_nics b))),
                    (?c + 1 + int (Suc j)) mod num_nics b)) [0..<k]"
    unfolding Suc.IH [OF c'] shift ..
  have "roundrobin_calls (Suc k) e i b w =
        (fst (select_nic_roundrobin e i b w), counter_value ?w' i) # roundrobin_calls k e i b ?w'"
    by (simp add: split_beta)
  also have "\<dots> = (Inr (0, Some (nics b ! nat ((?c + 1) mod num_nics b))), (?c + 1) mod num_nics b)
        # map (\<lambda>j. (Inr (0, Some (nics b ! nat ((?c + 1 + int (Suc j)) mod num_nics b))),
                    (?c + 1 + int (Suc j)) mod num_nics b)) [0..<k]"
    by (simp only: tl st(1) st(3))
  also have "\<dots> = map (\<lambda>j. (Inr (0, Some (nics b ! nat ((?c + 1 + int j) mod num_nics b))),
                    (?c + 1 + int j) mod num_nics b)) [0..<Suc k]"
    by (simp add: upt_rec [of 0 "Suc k"] map_Suc_upt [symmetric] del: upt_Suc)
  finally show ?case .
qed

subsection \<open>Round-robin selection\<close>

text \<open>
  C1. Under the round-robin policy, on a bucket of \<open>N \<ge> 2\<close> NICs and with every
  file-system call succeeding, a call reads the current value of the counter (-1 for an
  empty or never-written file), computes \<open>next = (current + 1) mod N\<close>, writes \<open>next\<close>
  to the file and returns the NIC at index \<open>next\<close>. Starting from a counter that was
  never written, the \<open>j\<close>-th of \<open>k\<close> successive calls (counting from 0) returns the NIC
  at index \<open>j mod N\<close> and leaves that index in the file: the indices repeat with period
  \<open>N\<close>. The current value is the one of the data model, at least -1 (and below
  \<^verbatim>\<open>INT_MAX\<close>, so that \<^verbatim>\<open>nic_idx+1\<close> is defined).
\<close>

theorem roundrobin_rotation:
  assumes io: "\<not> mkdir_fails e" "0 \<le> open_ret e" "pread_ok e" "pwrite_ok e"
    and n: "2 \<le> num_nics b" "num_nics b = int (length (nics b))" "num_nics b \<le> INT_MAX"
    and cur: "- 1 \<le> counter_value w i" "counter_value w i < INT_MAX"
  shows "fst (select_nic_roundrobin e i b w) =
           Inr (0, Some (nics b ! nat ((counter_value w i + 1) mod num_nics b))) \<and>
         files (snd (select_nic_roundrobin e i b w)) i =
           Some (Some (word_of_int ((counter_value w i + 1) mod num_nics b))) \<and>
         counter_value (snd (select_nic_roundrobin e i b w)) i =
           (counter_value w i + 1) mod num_nics b \<and>
         (counter_value w i = - 1 \<longrightarrow>
          roundrobin_calls k e i b w =
            map (\<lambda>j. (Inr (0, Some (nics b ! nat (int j mod num_nics b))), int j mod num_nics b))
              [0..<k])"
proof -
  from n(1) have pos: "0 < num_nics b" by simp
  note st = rr_step [OF io cur pos n(2)]
  have 1: "fst (select_nic_roundrobin e i b w) =
           Inr (0, Some (nics b ! nat ((counter_value w i + 1) mod num_nics b)))"
    by (rule st(1))
  have 2: "files (snd (select_nic_roundrobin e i b w)) i =
           Some (Some (word_of_int ((counter_value w i + 1) mod num_nics b)))"
    by (simp add: st(2))
  have 3: "counter_value (snd (select_nic_roundrobin e i b w)) i =
           (counter_value w i + 1) mod num_nics b"
    by (rule st(3))
  have 4: "counter_value w i = - 1 \<longrightarrow>
         roundrobin_calls k e i b w =
           map (\<lambda>j. (Inr (0, Some (nics b ! nat (int j mod num_nics b))), int j mod num_nics b))
             [0..<k]"
  proof
    assume c: "counter_value w i = - 1"
    then have "counter_value w i < num_nics b" using pos by simp
    from rr_calls_from [OF io pos n(2,3) cur(1) this, of k] c
    show "roundrobin_calls k e i b w =
           map (\<lambda>j. (Inr (0, Some (nics b ! nat (int j mod num_nics b))), int j mod num_nics b))
             [0..<k]"
      by simp
  qed
  from 1 2 3 4 show ?thesis by blast
qed

text \<open>
  The rotation of the spec: three NICs, no counter file, four calls.
\<close>

theorem roundrobin_rotation_witness:
  "counter_value world0 0 = - 1 \<and>
   roundrobin_calls 4 (node []) 0 \<lparr>num_nics = 3, nics = [''nic0'', ''nic1'', ''nic2'']\<rparr> world0 =
     [(Inr (0, Some ''nic0''), 0), (Inr (0, Some ''nic1''), 1),
      (Inr (0, Some ''nic2''), 2), (Inr (0, Some ''nic0''), 0)]"
proof -
  let ?b = "\<lparr>num_nics = 3, nics = [''nic0'', ''nic1'', ''nic2'']\<rparr>"
  have io: "\<not> mkdir_fails (node [])" "0 \<le> open_ret (node [])" "pread_ok (node [])"
    "pwrite_ok (node [])"
    by (simp_all add: node_def)
  have n: "2 \<le> num_nics ?b" "num_nics ?b = int (length (nics ?b))" "num_nics ?b \<le> INT_MAX"
    by (simp_all add: INT_MAX_def)
  have c: "counter_value world0 0 = - 1"
    by (simp add: counter_value_def world0_def)
  have cur: "- 1 \<le> counter_value world0 0" "counter_value world0 0 < INT_MAX"
    by (simp_all add: c INT_MAX_def)
  from roundrobin_rotation [OF io n cur, of 4] c
  have "roundrobin_calls 4 (node []) 0 ?b world0 =
     map (\<lambda>j. (Inr (0, Some (nics ?b ! nat (int j mod num_nics ?b))), int j mod num_nics ?b))
       [0..<4]"
    by blast
  also have "\<dots> = [(Inr (0, Some ''nic0''), 0), (Inr (0, Some ''nic1''), 1),
      (Inr (0, Some ''nic2''), 2), (Inr (0, Some ''nic0''), 0)]"
    by (simp add: upt_conv_Cons)
  finally show ?thesis using c by blast
qed

text \<open>
  C10. If the counter of a bucket with \<open>N\<close> NICs holds a value in \<open>[-1, N)\<close> before a
  round-robin call (an empty file counts as -1) and the call returns status 0, then
  the value stored after the call is in \<open>[0, N)\<close> and is the index of the NIC
  returned.
\<close>

theorem roundrobin_counter_invariant:
  assumes "- 1 \<le> counter_value w i" "counter_value w i < num_nics b"
    and "select_nic_roundrobin e i b w = (Inr (0, out), w')"
  shows "0 \<le> counter_value w' i \<and> counter_value w' i < num_nics b \<and>
         files w' i = Some (Some (word_of_int (counter_value w' i))) \<and>
         out = Some (nics b ! nat (counter_value w' i))"
proof -
  let ?next = "(counter_value w i + 1) mod num_nics b"
  from rr_success_cases [OF assms(3)]
  have ovf: "counter_value w i + 1 \<le> INT_MAX" and n0: "num_nics b \<noteq> 0"
    and at: "nics_at b ((counter_value w i + 1) smod num_nics b) = Inr (the out)"
    and out: "out \<noteq> None"
    and f: "files w' = (files w)(i := Some (Some (word_of_int ((counter_value w i + 1) smod num_nics b))))"
    by simp_all
  from assms(1,2) n0 have pos: "0 < num_nics b" by linarith
  note nb = next_bounds [OF assms(1) pos]
  from f nb(1) have f': "files w' = (files w)(i := Some (Some (word_of_int ?next)))" by simp
  have cv: "counter_value w' i = ?next"
    using counter_value_written [OF f' nb(2)] nb(4) ovf by linarith
  from at nb(1) have "nics_at b ?next = Inr (the out)" by simp
  then have "the out = nics b ! nat ?next"
    by (simp add: nics_at_def split: if_splits)
  with out have "out = Some (nics b ! nat ?next)" by auto
  with cv nb f' show ?thesis by simp
qed

theorem roundrobin_counter_invariant_witness:
  "- 1 \<le> counter_value world0 0 \<and>
   counter_value world0 0 < num_nics \<lparr>num_nics = 2, nics = [''cxi0'', ''cxi1'']\<rparr> \<and>
   fst (select_nic_roundrobin (node []) 0 \<lparr>num_nics = 2, nics = [''cxi0'', ''cxi1'']\<rparr> world0)
     = Inr (0, Some ''cxi0'') \<and>
   0 \<le> counter_value (snd (select_nic_roundrobin (node []) 0
     \<lparr>num_nics = 2, nics = [''cxi0'', ''cxi1'']\<rparr> world0)) 0 \<and>
   counter_value (snd (select_nic_roundrobin (node []) 0
     \<lparr>num_nics = 2, nics = [''cxi0'', ''cxi1'']\<rparr> world0)) 0 < 2"
proof -
  let ?b = "\<lparr>num_nics = 2, nics = [''cxi0'', ''cxi1'']\<rparr>"
  let ?r = "select_nic_roundrobin (node []) 0 ?b world0"
  have c: "counter_value world0 0 = - 1"
    by (simp add: counter_value_def world0_def)
  have r: "fst ?r = Inr (0, Some ''cxi0'')"
    by (simp add: select_nic_roundrobin_def sys_defs node_def world0_def emit_def nics_at_def
        INT_MAX_def signed_modulo_int_def)
  then have run: "?r = (Inr (0, Some ''cxi0''), snd ?r)"
    by (metis prod.collapse)
  have h: "- 1 \<le> counter_value world0 0" "counter_value world0 0 < num_nics ?b"
    by (simp_all add: c)
  have two: "num_nics ?b = 2" by simp
  from roundrobin_counter_invariant [OF h run]
  have "0 \<le> counter_value (snd ?r) 0" "counter_value (snd ?r) 0 < num_nics ?b"
    by blast+
  with h r two show ?thesis by presburger
qed

subsection \<open>Pass-through\<close>

lemma take_eq_iff_prefix: "n = length p \<Longrightarrow> take n a = p \<longleftrightarrow> (\<exists>r. a = p @ r)"
  by (metis append_eq_conv_conj append_take_drop_id)

lemma not_cxi_iff: "not_cxi a \<longleftrightarrow> \<not> supported_transport a"
proof -
  have 1: "take 3 a = ''cxi'' \<longleftrightarrow> (\<exists>r. a = ''cxi'' @ r)"
    by (rule take_eq_iff_prefix) simp
  have 2: "take 7 a = ''ofi+cxi'' \<longleftrightarrow> (\<exists>r. a = ''ofi+cxi'' @ r)"
    by (rule take_eq_iff_prefix) simp
  show ?thesis
    unfolding not_cxi_def supported_transport_def 1 2 by blast
qed

lemma ends_with_two:
  assumes "2 \<le> length a"
  shows "(\<exists>p. a = p @ [x, y]) \<longleftrightarrow> a ! (length a - 2) = x \<and> a ! (length a - 1) = y"
proof
  assume "\<exists>p. a = p @ [x, y]"
  then obtain p where "a = p @ [x, y]" ..
  then show "a ! (length a - 2) = x \<and> a ! (length a - 1) = y"
    by (simp add: nth_append)
next
  assume r: "a ! (length a - 2) = x \<and> a ! (length a - 1) = y"
  let ?d = "drop (length a - 2) a"
  have len: "length ?d = Suc (Suc 0)" using assms by simp
  then obtain u ds where uds: "?d = u # ds" "length ds = Suc 0"
    by (metis length_Suc_conv)
  then obtain v where "ds = [v]"
    by (metis length_0_conv length_Suc_conv)
  with uds have d: "?d = [u, v]" by simp
  have arith: "length a - 2 + 1 = length a - 1" using assms by linarith
  have "?d ! 0 = a ! (length a - 2 + 0)" "?d ! 1 = a ! (length a - 2 + 1)"
    using assms by (simp_all only: nth_drop diff_le_self)
  with d r arith have "?d = [x, y]" by simp
  then have "a = take (length a - 2) a @ [x, y]"
    by (metis append_take_drop_id)
  then show "\<exists>p. a = p @ [x, y]" ..
qed

lemma already_specific_iff:
  assumes "supported_transport a"
  shows "already_specific a \<longleftrightarrow> \<not> unresolved_form a"
proof -
  from assms have "2 \<le> length a"
    by (auto simp: supported_transport_def)
  from ends_with_two [OF this, of "CHR ''/''" "CHR ''/''"]
  show ?thesis
    unfolding already_specific_def unresolved_form_def by auto
qed

lemma pass_through_aux:
  assumes "\<not> (supported_transport a \<and> unresolved_form a)"
  shows "mochi_plumber_resolve_nic e a bucket_policy nic_policy w = (Inr (0, Some a), w)"
proof (cases "supported_transport a")
  case False
  then show ?thesis by (simp add: mochi_plumber_resolve_nic_def not_cxi_iff)
next
  case True
  with assms have "already_specific a" by (simp add: already_specific_iff)
  then show ?thesis by (simp add: mochi_plumber_resolve_nic_def)
qed

text \<open>
  C6. An address that does not both name the supported transport (prefix \<^verbatim>\<open>cxi\<close> or
  \<^verbatim>\<open>ofi+cxi\<close>) and end with \<^verbatim>\<open>//\<close> is returned unchanged with status 0, whatever
  the policies and the environment, and nothing else happens; a second call on the same
  address, in the world the first one left, returns the same.
\<close>

theorem pass_through:
  assumes "\<not> (supported_transport a \<and> unresolved_form a)"
  shows "mochi_plumber_resolve_nic e a bucket_policy nic_policy w = (Inr (0, Some a), w) \<and>
         mochi_plumber_resolve_nic e' a bucket_policy' nic_policy'
           (snd (mochi_plumber_resolve_nic e a bucket_policy nic_policy w)) = (Inr (0, Some a), w)"
  by (simp add: pass_through_aux [OF assms])

theorem pass_through_witness:
  "\<not> (supported_transport ''tcp://'' \<and> unresolved_form ''tcp://'') \<and>
   mochi_plumber_resolve_nic (node []) ''tcp://'' ''numa'' ''bogus'' world0 =
     (Inr (0, Some ''tcp://''), world0) \<and>
   \<not> (supported_transport ''ofi+cxi://cxi0'' \<and> unresolved_form ''ofi+cxi://cxi0'') \<and>
   mochi_plumber_resolve_nic (node []) ''ofi+cxi://cxi0'' ''all'' ''roundrobin'' world0 =
     (Inr (0, Some ''ofi+cxi://cxi0''), world0)"
proof -
  have 1: "\<not> (supported_transport ''tcp://'' \<and> unresolved_form ''tcp://'')"
    by (simp add: supported_transport_def)
  have "\<not> unresolved_form ''ofi+cxi://cxi0''"
    unfolding unresolved_form_def
    by (subst ends_with_two) simp_all
  then have 2: "\<not> (supported_transport ''ofi+cxi://cxi0'' \<and> unresolved_form ''ofi+cxi://cxi0'')"
    by simp
  from pass_through [OF 1, of "node []" "''numa''" "''bogus''" world0]
    pass_through [OF 2, of "node []" "''all''" "''roundrobin''" world0] 1 2
  show ?thesis by blast
qed

subsection \<open>The single-NIC shortcut\<close>

lemma filter_fs_emit: "\<forall>ev \<in> set es. \<not> fs_event ev \<Longrightarrow> filter fs_event (trace (emit es w)) = filter fs_event (trace w)"
  by (simp add: emit_def)

lemma bucket_idx_no_fs:
  assumes "select_nic_bucket_idx e bucket_policy nbuckets w = (r, w1)"
  shows "files w1 = files w \<and> dir_exists w1 = dir_exists w \<and>
         filter fs_event (trace w1) = filter fs_event (trace w)"
  using assms
  by (auto simp: select_nic_bucket_idx_def Let_def split: if_splits)

text \<open>
  C2. When the bucket that \<^verbatim>\<open>select_nic\<close> selects contains exactly one NIC, the
  selector returns that NIC with status 0 whatever the NIC policy is (a known one or
  not), in the world in which the bucket was chosen: no counter file and no scratch
  directory is created or changed, and no call to the file system is made.
\<close>

theorem single_nic_shortcut:
  assumes "select_nic_bucket_idx e bucket_policy nbuckets w = (Inr (Inr bucket_idx), w1)"
    and "buckets_at buckets bucket_idx = Inr b"
    and "num_nics b = 1" "nics b = [n]"
  shows "select_nic e bucket_policy nic_policy nbuckets buckets w = (Inr (0, Some n), w1) \<and>
         files w1 = files w \<and> dir_exists w1 = dir_exists w \<and>
         filter fs_event (trace w1) = filter fs_event (trace w)"
  using assms bucket_idx_no_fs [OF assms(1)]
  by (simp add: select_nic_def nics_at_def)

theorem single_nic_shortcut_witness:
  "select_nic_bucket_idx (node []) ''all'' 1 world0 = (Inr (Inr 0), world0) \<and>
   buckets_at [\<lparr>num_nics = 1, nics = [''cxi0'']\<rparr>] 0 = Inr \<lparr>num_nics = 1, nics = [''cxi0'']\<rparr> \<and>
   select_nic (node []) ''all'' ''roundrobin'' 1 [\<lparr>num_nics = 1, nics = [''cxi0'']\<rparr>] world0 =
     (Inr (0, Some ''cxi0''), world0) \<and>
   select_nic (node []) ''all'' ''no such policy'' 1 [\<lparr>num_nics = 1, nics = [''cxi0'']\<rparr>] world0 =
     (Inr (0, Some ''cxi0''), world0)"
proof -
  let ?b = "\<lparr>num_nics = 1, nics = [''cxi0'']\<rparr>"
  have 1: "select_nic_bucket_idx (node []) ''all'' 1 world0 = (Inr (Inr 0), world0)"
    by (simp add: select_nic_bucket_idx_def)
  have 2: "buckets_at [?b] 0 = Inr ?b"
    by (simp add: buckets_at_def)
  have 3: "num_nics ?b = 1" "nics ?b = [''cxi0'']"
    by simp_all
  from single_nic_shortcut [OF 1 2 3, of "''roundrobin''"]
    single_nic_shortcut [OF 1 2 3, of "''no such policy''"] 1 2
  show ?thesis by blast
qed

subsection \<open>Building the buckets\<close>

lemma names_for_Cons:
  "names_for e nb (cur # rest) i =
     (if bucket_of e nb cur = Some i then domain_attr_name cur # names_for e nb rest i
      else names_for e nb rest i)"
  by (simp add: names_for_def)

lemma assign_buckets_ok:
  assumes "\<forall>cur \<in> set infos. \<not> not_in_topology e cur"
    and "\<forall>cur \<in> set infos. \<forall>k. bucket_of e nb cur = Some k \<longrightarrow> 0 \<le> k \<and> k < int (length bs)"
  shows "\<exists>bs'. assign_buckets e nb infos bs = Inr (Inr bs') \<and> length bs' = length bs \<and>
           (\<forall>i < length bs.
              nics (bs' ! i) = nics (bs ! i) @ names_for e nb infos (int i) \<and>
              num_nics (bs' ! i) = num_nics (bs ! i) + int (length (names_for e nb infos (int i))))"
  using assms
proof (induction infos arbitrary: bs)
  case Nil
  show ?case by (simp add: names_for_def)
next
  case (Cons cur rest)
  from Cons.prems have found: "\<forall>c \<in> set rest. \<not> not_in_topology e c"
    and range: "\<forall>c \<in> set rest. \<forall>k. bucket_of e nb c = Some k \<longrightarrow> 0 \<le> k \<and> k < int (length bs)"
    by simp_all
  show ?case
  proof (cases "pci_of cur")
    case None
    then have b: "bucket_of e nb cur = None" by (simp add: bucket_of_def)
    from Cons.IH [OF found range] None b show ?thesis
      by (simp add: names_for_Cons)
  next
    case (Some pci)
    with Cons.prems(1) obtain d where d: "get_pcidev_by_busid e pci = Some d"
      by (auto simp: not_in_topology_def)
    let ?k = "if nb = 1 then 0 else ancestor_first_node e d"
    have bk: "bucket_of e nb cur = Some ?k"
      using Some d by (simp add: bucket_of_def)
    with Cons.prems(2) have k: "0 \<le> ?k" "?k < int (length bs)" by auto
    then have nk: "nat ?k < length bs" by linarith
    let ?bs = "bs[nat ?k := add_nic (bs ! nat ?k) (domain_attr_name cur)]"
    have at: "buckets_at bs ?k = Inr (bs ! nat ?k)"
      using k nk by (simp add: buckets_at_def)
    have step: "assign_buckets e nb (cur # rest) bs = assign_buckets e nb rest ?bs"
      using Some d at by (simp add: Let_def)
    have range': "\<forall>c \<in> set rest. \<forall>k. bucket_of e nb c = Some k \<longrightarrow> 0 \<le> k \<and> k < int (length ?bs)"
      using range by simp
    from Cons.IH [OF found range'] obtain bs' where
      r: "assign_buckets e nb rest ?bs = Inr (Inr bs')" and len: "length bs' = length bs"
      and el: "\<forall>i < length bs. nics (bs' ! i) = nics (?bs ! i) @ names_for e nb rest (int i) \<and>
              num_nics (bs' ! i) = num_nics (?bs ! i) + int (length (names_for e nb rest (int i)))"
      by auto
    have "nics (bs' ! i) = nics (bs ! i) @ names_for e nb (cur # rest) (int i) \<and>
          num_nics (bs' ! i) = num_nics (bs ! i) + int (length (names_for e nb (cur # rest) (int i)))"
      if i: "i < length bs" for i
    proof (cases "i = nat ?k")
      case True
      then have "int i = ?k" using k by simp
      with el i True nk bk show ?thesis
        by (simp add: names_for_Cons add_nic_def)
    next
      case False
      then have "int i \<noteq> ?k" by linarith
      with el i False bk show ?thesis
        by (simp add: names_for_Cons)
    qed
    with step r len show ?thesis by simp
  qed
qed

lemma assign_buckets_not_found:
  assumes "find (not_in_topology e) infos = Some c"
  shows "assign_buckets e 1 infos [b] = Inr (Inl (domain_attr_name c))"
  using assms
proof (induction infos arbitrary: b)
  case Nil
  then show ?case by simp
next
  case (Cons cur rest)
  show ?case
  proof (cases "pci_of cur")
    case None
    then have "\<not> not_in_topology e cur" by (simp add: not_in_topology_def)
    with Cons None show ?thesis by simp
  next
    case (Some pci)
    show ?thesis
    proof (cases "get_pcidev_by_busid e pci")
      case None
      with Some have "not_in_topology e cur" by (simp add: not_in_topology_def)
      with Cons.prems have "c = cur" by simp
      with Some None show ?thesis by simp
    next
      case (Some d)
      with \<open>pci_of cur = Some pci\<close> have "\<not> not_in_topology e cur"
        by (simp add: not_in_topology_def)
      with Cons.prems have "find (not_in_topology e) rest = Some c" by simp
      from Cons.IH [OF this] Some \<open>pci_of cur = Some pci\<close> show ?thesis
        by (simp add: buckets_at_def)
    qed
  qed
qed

lemma emit_emit [simp]: "emit es (emit fs w) = emit (fs @ es) w"
  by (simp add: emit_def)

lemma eligible_iff:
  "supported_transport a \<and> unresolved_form a \<longleftrightarrow> \<not> not_cxi a \<and> \<not> already_specific a"
  using not_cxi_iff [of a] already_specific_iff [of a] by blast

lemma build_buckets_all_not_found:
  assumes "calloc_ok e" "fi_allocinfo_ok e" "fi_getinfo_ret e = 0"
    and "find (not_in_topology e) (fi_getinfo_list e) = Some c"
  shows "build_buckets e ''all'' w =
           (Inr (Inl (- 1)),
            emit [Topology_init, Topology_load, Calloc_buckets, Fi_allocinfo, Fi_getinfo 0,
                  Fi_freeinfo_hints, Stderr (Cant_find_in_topology (domain_attr_name c)),
                  Fi_freeinfo_info, Free_buckets, Topology_destroy] w)"
  using assms(1-3) assign_buckets_not_found [OF assms(4), of "\<lparr>num_nics = 0, nics = []\<rparr>"]
  by (simp add: build_buckets_def nbuckets_of_def Let_def)

lemma cxi_eligible: "supported_transport ''cxi://''" "unresolved_form ''cxi://''"
  by (simp_all add: supported_transport_def unresolved_form_def)

text \<open>
  C9. Under the bucket policy \<^verbatim>\<open>"all"\<close> every enumerated NIC with PCI bus data is
  looked up in the topology too: when the address is one that is rewritten, the
  allocations and \<^verbatim>\<open>fi_getinfo\<close> succeed and some enumerated NIC with PCI bus data
  has no device in the topology, the resolution returns -1, with the diagnostic naming
  the first such NIC of the list, and the enumeration results, the buckets and the
  topology are released.
\<close>

theorem all_policy_topology_check:
  assumes "supported_transport a" "unresolved_form a"
    and "calloc_ok e" "fi_allocinfo_ok e" "fi_getinfo_ret e = 0"
    and "cur \<in> set (fi_getinfo_list e)" "not_in_topology e cur"
  shows "\<exists>c. find (not_in_topology e) (fi_getinfo_list e) = Some c \<and>
           mochi_plumber_resolve_nic e a ''all'' nic_policy w =
             (Inr (- 1, None),
              emit [Topology_init, Topology_load, Calloc_buckets, Fi_allocinfo, Fi_getinfo 0,
                    Fi_freeinfo_hints, Stderr (Cant_find_in_topology (domain_attr_name c)),
                    Fi_freeinfo_info, Free_buckets, Topology_destroy] w)"
proof -
  from assms(6,7) have "find (not_in_topology e) (fi_getinfo_list e) \<noteq> None"
    by (auto simp: find_None_iff)
  then obtain c where c: "find (not_in_topology e) (fi_getinfo_list e) = Some c" by auto
  from assms(1,2) have el: "\<not> not_cxi a" "\<not> already_specific a"
    using eligible_iff by blast+
  have "mochi_plumber_resolve_nic e a ''all'' nic_policy w =
             (Inr (- 1, None),
              emit [Topology_init, Topology_load, Calloc_buckets, Fi_allocinfo, Fi_getinfo 0,
                    Fi_freeinfo_hints, Stderr (Cant_find_in_topology (domain_attr_name c)),
                    Fi_freeinfo_info, Free_buckets, Topology_destroy] w)"
    using el by (simp add: mochi_plumber_resolve_nic_def build_buckets_all_not_found [OF assms(3-5) c])
  with c show ?thesis by blast
qed

theorem all_policy_topology_check_witness:
  "supported_transport ''cxi://'' \<and> unresolved_form ''cxi://'' \<and>
   not_in_topology (node [pci_nic ''cxi0'' 0, pci_nic ''cxi9'' 9]) (pci_nic ''cxi9'' 9) \<and>
   mochi_plumber_resolve_nic (node [pci_nic ''cxi0'' 0, pci_nic ''cxi9'' 9]) ''cxi://'' ''all''
       ''roundrobin'' world0 =
     (Inr (- 1, None),
      emit [Topology_init, Topology_load, Calloc_buckets, Fi_allocinfo, Fi_getinfo 0,
            Fi_freeinfo_hints, Stderr (Cant_find_in_topology ''cxi9''),
            Fi_freeinfo_info, Free_buckets, Topology_destroy] world0)"
proof -
  let ?e = "node [pci_nic ''cxi0'' 0, pci_nic ''cxi9'' 9]"
  have ok: "calloc_ok ?e" "fi_allocinfo_ok ?e" "fi_getinfo_ret ?e = 0"
    by (simp_all add: node_def)
  have mem: "pci_nic ''cxi9'' 9 \<in> set (fi_getinfo_list ?e)"
    by (simp add: node_def)
  have nf: "not_in_topology ?e (pci_nic ''cxi9'' 9)"
    by (simp add: not_in_topology_def pci_of_def pci_nic_def node_def)
  have f: "find (not_in_topology ?e) (fi_getinfo_list ?e) = Some (pci_nic ''cxi9'' 9)"
    by (simp add: not_in_topology_def pci_of_def pci_nic_def node_def)
  have name: "domain_attr_name (pci_nic ''cxi9'' 9) = ''cxi9''"
    by (simp add: pci_nic_def)
  from all_policy_topology_check [OF cxi_eligible ok mem nf, of "''roundrobin''" world0] f name
  have "mochi_plumber_resolve_nic ?e ''cxi://'' ''all'' ''roundrobin'' world0 =
     (Inr (- 1, None),
      emit [Topology_init, Topology_load, Calloc_buckets, Fi_allocinfo, Fi_getinfo 0,
            Fi_freeinfo_hints, Stderr (Cant_find_in_topology ''cxi9''),
            Fi_freeinfo_info, Free_buckets, Topology_destroy] world0)"
    by auto
  with cxi_eligible nf show ?thesis by blast
qed

lemma build_buckets_ok:
  assumes ok: "calloc_ok e" "fi_allocinfo_ok e" "fi_getinfo_ret e = 0"
    and nb: "nbuckets_of e bucket_policy = Some nb" "0 \<le> nb"
    and found: "\<forall>c \<in> set (fi_getinfo_list e). \<not> not_in_topology e c"
    and range: "\<forall>c \<in> set (fi_getinfo_list e). \<forall>k. bucket_of e nb c = Some k \<longrightarrow> 0 \<le> k \<and> k < nb"
  shows "\<exists>bs. build_buckets e bucket_policy w =
             (Inr (Inr (nb, bs)),
              emit [Topology_init, Topology_load, Calloc_buckets, Fi_allocinfo, Fi_getinfo 0,
                    Fi_freeinfo_hints, Fi_freeinfo_info] w) \<and>
           int (length bs) = nb \<and>
           (\<forall>i < length bs.
              nics (bs ! i) = names_for e nb (fi_getinfo_list e) (int i) \<and>
              num_nics (bs ! i) = int (length (nics (bs ! i))))"
proof -
  let ?bs0 = "replicate (nat nb) \<lparr>num_nics = 0, nics = []\<rparr>"
  have len0: "int (length ?bs0) = nb" using nb(2) by simp
  from range len0 have range': "\<forall>c \<in> set (fi_getinfo_list e). \<forall>k. bucket_of e nb c = Some k \<longrightarrow>
      0 \<le> k \<and> k < int (length ?bs0)"
    by simp
  from assign_buckets_ok [OF found range'] obtain bs where
    a: "assign_buckets e nb (fi_getinfo_list e) ?bs0 = Inr (Inr bs)"
    and len: "length bs = length ?bs0"
    and el: "\<forall>i < length ?bs0.
              nics (bs ! i) = nics (?bs0 ! i) @ names_for e nb (fi_getinfo_list e) (int i) \<and>
              num_nics (bs ! i) = num_nics (?bs0 ! i) + int (length (names_for e nb (fi_getinfo_list e) (int i)))"
    by blast
  have b: "build_buckets e bucket_policy w =
             (Inr (Inr (nb, bs)),
              emit [Topology_init, Topology_load, Calloc_buckets, Fi_allocinfo, Fi_getinfo 0,
                    Fi_freeinfo_hints, Fi_freeinfo_info] w)"
    using ok nb a by (simp add: build_buckets_def Let_def)
  have "nics (bs ! i) = names_for e nb (fi_getinfo_list e) (int i) \<and>
        num_nics (bs ! i) = int (length (nics (bs ! i)))" if "i < length bs" for i
    using el that len by simp
  with b len len0 show ?thesis by auto
qed

lemma bucket_of_all:
  assumes "\<not> not_in_topology e c"
  shows "bucket_of e 1 c = Some k \<longleftrightarrow> pci_of c \<noteq> None \<and> k = 0"
  using assms by (auto simp: bucket_of_def not_in_topology_def split: option.splits)

lemma bucket_of_numa:
  assumes "\<forall>k. affinity_domain e c = Some k \<longrightarrow> 0 \<le> k \<and> k < nb"
  shows "nb = 1 \<or> 0 \<le> k \<Longrightarrow> k < nb \<Longrightarrow> bucket_of e nb c = Some k \<longleftrightarrow> affinity_domain e c = Some k"
    and "bucket_of e nb c = Some k \<Longrightarrow> 0 \<le> k \<and> k < nb"
  using assms
  by (auto simp: bucket_of_def affinity_domain_def split: option.splits if_splits)

text \<open>
  What the buckets hold after a completed build. When the allocations and
  \<^verbatim>\<open>fi_getinfo\<close> succeed and every enumerated NIC with PCI bus data has a device in
  the topology: with the bucket policy \<^verbatim>\<open>"all"\<close> exactly one bucket is built, and it
  holds the names of all enumerated NICs with PCI bus data, in the order of the
  enumeration; with \<^verbatim>\<open>"numa"\<close>, where the affinity domain of every such NIC is one of
  the \<open>nodeset_weight\<close> bucket indices, there are \<open>nodeset_weight\<close> buckets and bucket
  \<open>i\<close> holds exactly the NICs whose affinity domain is \<open>i\<close>. NICs without PCI bus data
  are in no bucket, and nothing is printed.
\<close>

theorem bucket_completeness:
  assumes ok: "calloc_ok e" "fi_allocinfo_ok e" "fi_getinfo_ret e = 0"
    and found: "\<forall>c \<in> set (fi_getinfo_list e). \<not> not_in_topology e c"
  shows "(\<exists>b. build_buckets e ''all'' w =
              (Inr (Inr (1, [b])),
               emit [Topology_init, Topology_load, Calloc_buckets, Fi_allocinfo, Fi_getinfo 0,
                     Fi_freeinfo_hints, Fi_freeinfo_info] w) \<and>
            nics b = map domain_attr_name (filter (\<lambda>c. pci_of c \<noteq> None) (fi_getinfo_list e)) \<and>
            num_nics b = int (length (nics b))) \<and>
         (0 \<le> nodeset_weight e \<and>
          (\<forall>c \<in> set (fi_getinfo_list e). \<forall>k. affinity_domain e c = Some k \<longrightarrow>
              0 \<le> k \<and> k < nodeset_weight e) \<longrightarrow>
          (\<exists>bs. build_buckets e ''numa'' w =
              (Inr (Inr (nodeset_weight e, bs)),
               emit [Topology_init, Topology_load, Calloc_buckets, Fi_allocinfo, Fi_getinfo 0,
                     Fi_freeinfo_hints, Fi_freeinfo_info] w) \<and>
            int (length bs) = nodeset_weight e \<and>
            (\<forall>i < length bs.
               nics (bs ! i) =
                 map domain_attr_name
                   (filter (\<lambda>c. affinity_domain e c = Some (int i)) (fi_getinfo_list e)) \<and>
               num_nics (bs ! i) = int (length (nics (bs ! i))))))"
proof (intro conjI impI)
  have nb: "nbuckets_of e ''all'' = Some 1" "(0::int) \<le> 1"
    by (simp_all add: nbuckets_of_def)
  have range: "\<forall>c \<in> set (fi_getinfo_list e). \<forall>k. bucket_of e 1 c = Some k \<longrightarrow> 0 \<le> k \<and> k < 1"
    using found by (simp add: bucket_of_all)
  from build_buckets_ok [OF ok nb found range, of w] obtain bs where
    b: "build_buckets e ''all'' w =
             (Inr (Inr (1, bs)),
              emit [Topology_init, Topology_load, Calloc_buckets, Fi_allocinfo, Fi_getinfo 0,
                    Fi_freeinfo_hints, Fi_freeinfo_info] w)"
    and len: "int (length bs) = 1"
    and el: "\<forall>i < length bs. nics (bs ! i) = names_for e 1 (fi_getinfo_list e) (int i) \<and>
              num_nics (bs ! i) = int (length (nics (bs ! i)))"
    by blast
  from len have "length bs = Suc 0" by simp
  then obtain b0 where bs: "bs = [b0]"
    by (metis length_0_conv length_Suc_conv)
  have "names_for e 1 (fi_getinfo_list e) 0 =
        map domain_attr_name (filter (\<lambda>c. pci_of c \<noteq> None) (fi_getinfo_list e))"
    unfolding names_for_def
    by (rule arg_cong [where f = "map domain_attr_name"], rule filter_cong)
      (use found in \<open>simp_all add: bucket_of_all\<close>)
  with el bs have "nics b0 = map domain_attr_name (filter (\<lambda>c. pci_of c \<noteq> None) (fi_getinfo_list e))"
    "num_nics b0 = int (length (nics b0))"
    by simp_all
  with b bs show "\<exists>b. build_buckets e ''all'' w =
              (Inr (Inr (1, [b])),
               emit [Topology_init, Topology_load, Calloc_buckets, Fi_allocinfo, Fi_getinfo 0,
                     Fi_freeinfo_hints, Fi_freeinfo_info] w) \<and>
            nics b = map domain_attr_name (filter (\<lambda>c. pci_of c \<noteq> None) (fi_getinfo_list e)) \<and>
            num_nics b = int (length (nics b))"
    by blast
next
  let ?nb = "nodeset_weight e"
  assume h: "0 \<le> ?nb \<and>
          (\<forall>c \<in> set (fi_getinfo_list e). \<forall>k. affinity_domain e c = Some k \<longrightarrow> 0 \<le> k \<and> k < ?nb)"
  then have w0: "0 \<le> ?nb"
    and dom: "\<And>c. c \<in> set (fi_getinfo_list e) \<Longrightarrow> \<forall>k. affinity_domain e c = Some k \<longrightarrow> 0 \<le> k \<and> k < ?nb"
    by blast+
  have nb: "nbuckets_of e ''numa'' = Some ?nb"
    by (simp add: nbuckets_of_def)
  have range: "\<forall>c \<in> set (fi_getinfo_list e). \<forall>k. bucket_of e ?nb c = Some k \<longrightarrow> 0 \<le> k \<and> k < ?nb"
    using bucket_of_numa(2) [OF dom] by blast
  from build_buckets_ok [OF ok nb w0 found range, of w] obtain bs where
    b: "build_buckets e ''numa'' w =
             (Inr (Inr (?nb, bs)),
              emit [Topology_init, Topology_load, Calloc_buckets, Fi_allocinfo, Fi_getinfo 0,
                    Fi_freeinfo_hints, Fi_freeinfo_info] w)"
    and len: "int (length bs) = ?nb"
    and el: "\<forall>i < length bs. nics (bs ! i) = names_for e ?nb (fi_getinfo_list e) (int i) \<and>
              num_nics (bs ! i) = int (length (nics (bs ! i)))"
    by blast
  have "names_for e ?nb (fi_getinfo_list e) (int i) =
        map domain_attr_name (filter (\<lambda>c. affinity_domain e c = Some (int i)) (fi_getinfo_list e))"
    if "i < length bs" for i
  proof -
    from that len have i: "0 \<le> int i" "int i < ?nb" by simp_all
    show ?thesis
      unfolding names_for_def
      by (rule arg_cong [where f = "map domain_attr_name"], rule filter_cong)
        (use bucket_of_numa(1) [OF dom _ i(2)] i(1) in \<open>simp_all\<close>)
  qed
  with el have "\<forall>i < length bs.
               nics (bs ! i) =
                 map domain_attr_name
                   (filter (\<lambda>c. affinity_domain e c = Some (int i)) (fi_getinfo_list e)) \<and>
               num_nics (bs ! i) = int (length (nics (bs ! i)))"
    by simp
  with b len show "\<exists>bs. build_buckets e ''numa'' w =
              (Inr (Inr (?nb, bs)),
               emit [Topology_init, Topology_load, Calloc_buckets, Fi_allocinfo, Fi_getinfo 0,
                     Fi_freeinfo_hints, Fi_freeinfo_info] w) \<and>
            int (length bs) = ?nb \<and>
            (\<forall>i < length bs.
               nics (bs ! i) =
                 map domain_attr_name
                   (filter (\<lambda>c. affinity_domain e c = Some (int i)) (fi_getinfo_list e)) \<and>
               num_nics (bs ! i) = int (length (nics (bs ! i))))"
    by blast
qed

theorem bucket_completeness_witness:
  "(\<exists>b. build_buckets
          (node [pci_nic ''cxi0'' 0, \<lparr>nic = None, domain_attr_name = ''lo''\<rparr>,
                 pci_nic ''cxi1'' 1, pci_nic ''cxi2'' 2]) ''all'' world0 =
        (Inr (Inr (1, [b])),
         emit [Topology_init, Topology_load, Calloc_buckets, Fi_allocinfo, Fi_getinfo 0,
               Fi_freeinfo_hints, Fi_freeinfo_info] world0) \<and>
        nics b = [''cxi0'', ''cxi1'', ''cxi2''] \<and> num_nics b = 3) \<and>
   (\<exists>bs. build_buckets
          (node [pci_nic ''cxi0'' 0, \<lparr>nic = None, domain_attr_name = ''lo''\<rparr>,
                 pci_nic ''cxi1'' 1, pci_nic ''cxi2'' 2]) ''numa'' world0 =
        (Inr (Inr (2, bs)),
         emit [Topology_init, Topology_load, Calloc_buckets, Fi_allocinfo, Fi_getinfo 0,
               Fi_freeinfo_hints, Fi_freeinfo_info] world0) \<and>
        length bs = 2 \<and> nics (bs ! 0) = [''cxi0'', ''cxi2''] \<and> nics (bs ! 1) = [''cxi1''])"
proof -
  let ?l = "[pci_nic ''cxi0'' 0, \<lparr>nic = None, domain_attr_name = ''lo''\<rparr>,
             pci_nic ''cxi1'' 1, pci_nic ''cxi2'' 2]"
  let ?e = "node ?l"
  have ok: "calloc_ok ?e" "fi_allocinfo_ok ?e" "fi_getinfo_ret ?e = 0"
    by (simp_all add: node_def)
  have l: "fi_getinfo_list ?e = ?l" "nodeset_weight ?e = 2"
    by (simp_all add: node_def)
  have found: "\<forall>c \<in> set (fi_getinfo_list ?e). \<not> not_in_topology ?e c"
    by (simp add: not_in_topology_def pci_of_def pci_nic_def node_def)
  have ad: "\<forall>c \<in> set ?l. \<forall>k. affinity_domain ?e c = Some k \<longrightarrow> 0 \<le> k \<and> k < 2"
    by (simp add: affinity_domain_def pci_of_def pci_nic_def node_def)
  have f_all: "map domain_attr_name (filter (\<lambda>c. pci_of c \<noteq> None) ?l) =
      [''cxi0'', ''cxi1'', ''cxi2'']"
    by (simp add: pci_of_def pci_nic_def)
  have f0: "map domain_attr_name (filter (\<lambda>c. affinity_domain ?e c = Some 0) ?l) =
      [''cxi0'', ''cxi2'']"
    by (simp add: affinity_domain_def pci_of_def pci_nic_def node_def)
  have f1: "map domain_attr_name (filter (\<lambda>c. affinity_domain ?e c = Some 1) ?l) =
      [''cxi1'']"
    by (simp add: affinity_domain_def pci_of_def pci_nic_def node_def)
  have range: "0 \<le> nodeset_weight ?e \<and>
      (\<forall>c \<in> set (fi_getinfo_list ?e). \<forall>k. affinity_domain ?e c = Some k \<longrightarrow>
          0 \<le> k \<and> k < nodeset_weight ?e)"
    unfolding l using ad by simp
  note t = bucket_completeness [OF ok found, of world0]
  from t obtain b where b: "build_buckets ?e ''all'' world0 =
        (Inr (Inr (1, [b])),
         emit [Topology_init, Topology_load, Calloc_buckets, Fi_allocinfo, Fi_getinfo 0,
               Fi_freeinfo_hints, Fi_freeinfo_info] world0)"
    "nics b = map domain_attr_name (filter (\<lambda>c. pci_of c \<noteq> None) (fi_getinfo_list ?e))"
    "num_nics b = int (length (nics b))"
    by blast
  from b(2) have b1: "nics b = [''cxi0'', ''cxi1'', ''cxi2'']"
    unfolding l f_all .
  with b(3) have b': "nics b = [''cxi0'', ''cxi1'', ''cxi2'']" "num_nics b = 3"
    by simp_all
  from t range obtain bs where bs: "build_buckets ?e ''numa'' world0 =
        (Inr (Inr (nodeset_weight ?e, bs)),
         emit [Topology_init, Topology_load, Calloc_buckets, Fi_allocinfo, Fi_getinfo 0,
               Fi_freeinfo_hints, Fi_freeinfo_info] world0)"
    "int (length bs) = nodeset_weight ?e"
    "\<forall>i < length bs. nics (bs ! i) =
        map domain_attr_name (filter (\<lambda>c. affinity_domain ?e c = Some (int i)) (fi_getinfo_list ?e)) \<and>
        num_nics (bs ! i) = int (length (nics (bs ! i)))"
    by blast
  from bs(2) have len: "length bs = 2" unfolding l by simp
  have i0: "int 0 = 0" and i1: "int 1 = 1" by simp_all
  from len have lt: "0 < length bs" "1 < length bs" by simp_all
  from bs(3) lt(1) have "nics (bs ! 0) =
      map domain_attr_name (filter (\<lambda>c. affinity_domain ?e c = Some (int 0)) (fi_getinfo_list ?e))"
    by blast
  then have n0: "nics (bs ! 0) = [''cxi0'', ''cxi2'']"
    unfolding l i0 f0 .
  from bs(3) lt(2) have "nics (bs ! 1) =
      map domain_attr_name (filter (\<lambda>c. affinity_domain ?e c = Some (int 1)) (fi_getinfo_list ?e))"
    by blast
  then have n1: "nics (bs ! 1) = [''cxi1'']"
    unfolding l i1 f1 .
  from bs(1) len n0 n1 b(1) b' show ?thesis unfolding l by blast
qed

subsection \<open>The check for empty buckets\<close>

lemma first_empty_bucket_None:
  "first_empty_bucket bs k = None \<longleftrightarrow> (\<forall>i < length bs. \<not> num_nics (bs ! i) < 1)"
proof (induction bs arbitrary: k)
  case Nil
  show ?case by simp
next
  case (Cons b bs)
  show ?case
    by (simp add: Cons.IH All_less_Suc2 del: One_nat_def)
qed

lemma first_empty_bucket_Some:
  "first_empty_bucket bs k = Some r \<Longrightarrow>
     \<exists>j < length bs. r = k + int j \<and> num_nics (bs ! j) < 1 \<and> (\<forall>i < j. \<not> num_nics (bs ! i) < 1)"
proof (induction bs arbitrary: k)
  case Nil
  then show ?case by simp
next
  case (Cons b bs)
  show ?case
  proof (cases "num_nics b < 1")
    case True
    with Cons.prems have "r = k" by simp
    with True show ?thesis by (intro exI [of _ 0]) simp
  next
    case False
    with Cons.prems have "first_empty_bucket bs (k + 1) = Some r" by simp
    from Cons.IH [OF this] obtain j where j: "j < length bs" "r = k + 1 + int j"
      "num_nics (bs ! j) < 1" "\<forall>i < j. \<not> num_nics (bs ! i) < 1"
      by blast
    have "\<forall>i < Suc j. \<not> num_nics ((b # bs) ! i) < 1"
      using False j(4) by (simp add: All_less_Suc2)
    with j show ?thesis by (intro exI [of _ "Suc j"]) simp
  qed
qed

lemma select_nic_trace:
  assumes "select_nic e bucket_policy nic_policy nb bs w = (r, w')"
  shows "\<exists>es. trace w' = trace w @ es \<and> (\<forall>i. Stderr (Bucket_has_no_NICs i) \<notin> set es)"
  using assms
  by (auto simp: select_nic_def select_nic_bucket_idx_def select_nic_roundrobin_def
      select_nic_random_def sys_defs Let_def
      split: if_splits sum.splits prod.splits option.splits)

lemma resolve_after_build:
  assumes "supported_transport a" "unresolved_form a"
    and "build_buckets e bucket_policy w = (Inr (Inr (nb, bs)), w5)"
  shows "mochi_plumber_resolve_nic e a bucket_policy nic_policy w =
           select_and_compose e a bucket_policy nic_policy nb bs w5"
  using assms eligible_iff [of a] by (simp add: mochi_plumber_resolve_nic_def)

lemma compose_no_empty:
  assumes "first_empty_bucket bs 0 = None"
    and "select_nic e bucket_policy nic_policy nb bs w5 = (r, w6)"
  shows "select_and_compose e a bucket_policy nic_policy nb bs w5 =
           (case r of
              Inl f \<Rightarrow> (Inl f, w6)
            | Inr (ret, selected_nic) \<Rightarrow>
                if ret < 0 then
                  (Inr (- 1, None),
                   emit [Stderr Failed_to_select_NIC, Free_buckets, Topology_destroy] w6)
                else
                  (case selected_nic of
                     None \<Rightarrow> (Inl Uninitialised, emit [Free_buckets, Topology_destroy] w6)
                   | Some n \<Rightarrow>
                       (Inr (0, Some (a @ n)), emit [Free_buckets, Topology_destroy] w6)))"
  using assms by (simp add: select_and_compose_def Let_def split: sum.splits prod.splits)

lemmas build_eval = build_buckets_def nbuckets_of_def node_def pci_nic_def pci_of_def
  buckets_at_def add_nic_def Let_def

text \<open>
  C4 as stated (with an eligible address and valid policies the resolution fails if
  and only if some constructed bucket has no NIC) does not hold: here the one bucket
  that is constructed holds two NICs, and the resolution returns -1 because
  \<^verbatim>\<open>pread\<close> fails during the selection.
\<close>

theorem empty_bucket_iff_counterexample:
  "supported_transport ''cxi://'' \<and> unresolved_form ''cxi://'' \<and>
   build_buckets ((node [pci_nic ''cxi0'' 0, pci_nic ''cxi1'' 1])\<lparr>pread_ok := False\<rparr>) ''all'' world0 =
     (Inr (Inr (1, [\<lparr>num_nics = 2, nics = [''cxi0'', ''cxi1'']\<rparr>])),
      emit [Topology_init, Topology_load, Calloc_buckets, Fi_allocinfo, Fi_getinfo 0,
            Fi_freeinfo_hints, Fi_freeinfo_info] world0) \<and>
   fst (mochi_plumber_resolve_nic ((node [pci_nic ''cxi0'' 0, pci_nic ''cxi1'' 1])\<lparr>pread_ok := False\<rparr>)
          ''cxi://'' ''all'' ''roundrobin'' world0) = Inr (- 1, None)"
proof -
  let ?e = "(node [pci_nic ''cxi0'' 0, pci_nic ''cxi1'' 1])\<lparr>pread_ok := False\<rparr>"
  have b: "build_buckets ?e ''all'' world0 =
     (Inr (Inr (1, [\<lparr>num_nics = 2, nics = [''cxi0'', ''cxi1'']\<rparr>])),
      emit [Topology_init, Topology_load, Calloc_buckets, Fi_allocinfo, Fi_getinfo 0,
            Fi_freeinfo_hints, Fi_freeinfo_info] world0)"
    by (simp add: build_eval)
  have s: "fst (select_nic ?e ''all'' ''roundrobin'' 1 [\<lparr>num_nics = 2, nics = [''cxi0'', ''cxi1'']\<rparr>] w) =
      Inr (- 1, None)" for w
    by (simp add: select_nic_def select_nic_bucket_idx_def buckets_at_def
        select_nic_roundrobin_def sys_defs node_def Let_def split_beta)
  let ?w5 = "emit [Topology_init, Topology_load, Calloc_buckets, Fi_allocinfo, Fi_getinfo 0,
            Fi_freeinfo_hints, Fi_freeinfo_info] world0"
  obtain r w6 where sel: "select_nic ?e ''all'' ''roundrobin'' 1
      [\<lparr>num_nics = 2, nics = [''cxi0'', ''cxi1'']\<rparr>] ?w5 = (r, w6)"
    by (rule prod.exhaust)
  with s [of ?w5] have r: "r = Inr (- 1, None)" by simp
  have none: "first_empty_bucket [\<lparr>num_nics = 2, nics = [''cxi0'', ''cxi1'']\<rparr>] 0 = None"
    by simp
  have "fst (mochi_plumber_resolve_nic ?e ''cxi://'' ''all'' ''roundrobin'' world0) = Inr (- 1, None)"
    unfolding resolve_after_build [OF cxi_eligible b] compose_no_empty [OF none sel] r
    by simp
  with b cxi_eligible show ?thesis by blast
qed

text \<open>
  C4, amended. For an address that is rewritten, once the buckets are built: if some
  bucket has no NIC, the resolution returns -1 at the post-check, before any NIC is
  selected, and the diagnostic names the lowest index of an empty bucket; if no bucket
  is empty, no such diagnostic is printed, and the resolution fails exactly when the
  selection of the NIC fails.
\<close>

theorem empty_bucket_check:
  assumes "supported_transport a" "unresolved_form a"
    and "build_buckets e bucket_policy w = (Inr (Inr (nb, bs)), w5)"
  shows "((\<exists>i < length bs. num_nics (bs ! i) < 1) \<longrightarrow>
            (\<exists>j < length bs. num_nics (bs ! j) < 1 \<and> (\<forall>i < j. \<not> num_nics (bs ! i) < 1) \<and>
               mochi_plumber_resolve_nic e a bucket_policy nic_policy w =
                 (Inr (- 1, None),
                  emit [Stderr (Bucket_has_no_NICs (int j)), Free_buckets, Topology_destroy] w5))) \<and>
         (\<not> (\<exists>i < length bs. num_nics (bs ! i) < 1) \<longrightarrow>
            (\<forall>i. Stderr (Bucket_has_no_NICs i) \<notin>
                   set (drop (length (trace w5))
                     (trace (snd (mochi_plumber_resolve_nic e a bucket_policy nic_policy w))))) \<and>
            ((\<exists>st out. fst (mochi_plumber_resolve_nic e a bucket_policy nic_policy w) = Inr (st, out) \<and> st < 0)
               \<longleftrightarrow>
             (\<exists>st out. fst (select_nic e bucket_policy nic_policy nb bs w5) = Inr (st, out) \<and> st < 0)))"
proof (intro conjI impI)
  note res = resolve_after_build [OF assms, of nic_policy]
  assume "\<exists>i < length bs. num_nics (bs ! i) < 1"
  then have "first_empty_bucket bs 0 \<noteq> None"
    by (simp add: first_empty_bucket_None)
  then obtain r where r: "first_empty_bucket bs 0 = Some r" by auto
  from first_empty_bucket_Some [OF r] obtain j where
    j: "j < length bs" "r = int j" "num_nics (bs ! j) < 1" "\<forall>i < j. \<not> num_nics (bs ! i) < 1"
    by auto
  have "mochi_plumber_resolve_nic e a bucket_policy nic_policy w =
          (Inr (- 1, None),
           emit [Stderr (Bucket_has_no_NICs (int j)), Free_buckets, Topology_destroy] w5)"
    unfolding res using r j(2) by (simp add: select_and_compose_def)
  with j show "\<exists>j < length bs. num_nics (bs ! j) < 1 \<and> (\<forall>i < j. \<not> num_nics (bs ! i) < 1) \<and>
               mochi_plumber_resolve_nic e a bucket_policy nic_policy w =
                 (Inr (- 1, None),
                  emit [Stderr (Bucket_has_no_NICs (int j)), Free_buckets, Topology_destroy] w5)"
    by blast
next
  note res = resolve_after_build [OF assms, of nic_policy]
  assume "\<not> (\<exists>i < length bs. num_nics (bs ! i) < 1)"
  then have none: "first_empty_bucket bs 0 = None"
    by (simp add: first_empty_bucket_None)
  obtain r w6 where sel: "select_nic e bucket_policy nic_policy nb bs w5 = (r, w6)"
    by (cases "select_nic e bucket_policy nic_policy nb bs w5")
  from select_nic_trace [OF sel] obtain es where
    es: "trace w6 = trace w5 @ es" "\<forall>i. Stderr (Bucket_has_no_NICs i) \<notin> set es"
    by blast
  note c = compose_no_empty [OF none sel, of a]
  show "\<forall>i. Stderr (Bucket_has_no_NICs i) \<notin>
          set (drop (length (trace w5))
            (trace (snd (mochi_plumber_resolve_nic e a bucket_policy nic_policy w))))"
    unfolding res c using es
    by (auto split: sum.splits option.splits)
  show "(\<exists>st out. fst (mochi_plumber_resolve_nic e a bucket_policy nic_policy w) = Inr (st, out) \<and> st < 0)
               \<longleftrightarrow>
        (\<exists>st out. fst (select_nic e bucket_policy nic_policy nb bs w5) = Inr (st, out) \<and> st < 0)"
    unfolding res c sel
    by (auto split: sum.splits option.splits)
qed

theorem empty_bucket_check_witness:
  "build_buckets (node [pci_nic ''cxi0'' 0, pci_nic ''cxi2'' 2]) ''numa'' world0 =
     (Inr (Inr (2, [\<lparr>num_nics = 2, nics = [''cxi0'', ''cxi2'']\<rparr>, \<lparr>num_nics = 0, nics = []\<rparr>])),
      emit [Topology_init, Topology_load, Calloc_buckets, Fi_allocinfo, Fi_getinfo 0,
            Fi_freeinfo_hints, Fi_freeinfo_info] world0) \<and>
   mochi_plumber_resolve_nic (node [pci_nic ''cxi0'' 0, pci_nic ''cxi2'' 2]) ''cxi://'' ''numa''
       ''roundrobin'' world0 =
     (Inr (- 1, None),
      emit [Topology_init, Topology_load, Calloc_buckets, Fi_allocinfo, Fi_getinfo 0,
            Fi_freeinfo_hints, Fi_freeinfo_info,
            Stderr (Bucket_has_no_NICs 1), Free_buckets, Topology_destroy] world0)"
proof -
  let ?e = "node [pci_nic ''cxi0'' 0, pci_nic ''cxi2'' 2]"
  let ?bs = "[\<lparr>num_nics = 2, nics = [''cxi0'', ''cxi2'']\<rparr>, \<lparr>num_nics = 0, nics = []\<rparr>]"
  let ?w5 = "emit [Topology_init, Topology_load, Calloc_buckets, Fi_allocinfo, Fi_getinfo 0,
            Fi_freeinfo_hints, Fi_freeinfo_info] world0"
  have b: "build_buckets ?e ''numa'' world0 = (Inr (Inr (2, ?bs)), ?w5)"
    by (simp add: build_eval eval_nat_numeral)
  have ex: "\<exists>i < length ?bs. num_nics (?bs ! i) < 1"
    by (intro exI [of _ 1]) simp
  from empty_bucket_check [OF cxi_eligible b, of "''roundrobin''"] ex
  obtain j where j: "j < length ?bs" "num_nics (?bs ! j) < 1"
    "mochi_plumber_resolve_nic ?e ''cxi://'' ''numa'' ''roundrobin'' world0 =
       (Inr (- 1, None),
        emit [Stderr (Bucket_has_no_NICs (int j)), Free_buckets, Topology_destroy] ?w5)"
    by blast
  from j(1,2) have "j = 1"
    by (cases j) simp_all
  with j(3) b show ?thesis by simp
qed

subsection \<open>Unknown policy names\<close>

lemma fs_same_refl [simp]: "fs_same w w"
  by (simp add: fs_same_def)

lemma fs_same_trans: "fs_same w w1 \<Longrightarrow> fs_same w1 w2 \<Longrightarrow> fs_same w w2"
  by (simp add: fs_same_def)

lemma fs_same_emit: "\<forall>ev \<in> set es. \<not> fs_event ev \<Longrightarrow> fs_same w (emit es w)"
  by (simp add: fs_same_def)

lemma build_buckets_fs_same:
  assumes "build_buckets e bucket_policy w = (r, w')"
  shows "fs_same w w'"
  using assms
  by (auto simp: build_buckets_def Let_def fs_same_def split: option.splits if_splits sum.splits)

lemma select_nic_unknown_policy_fs_same:
  assumes "nic_policy \<noteq> ''roundrobin''" "nic_policy \<noteq> ''random''"
    and "select_nic e bucket_policy nic_policy nb bs w = (r, w')"
  shows "fs_same w w'"
proof -
  obtain r1 w1 where b: "select_nic_bucket_idx e bucket_policy nb w = (r1, w1)"
    by (rule prod.exhaust)
  from bucket_idx_no_fs [OF b] have 1: "fs_same w w1" by (simp add: fs_same_def)
  from assms b have "fs_same w1 w'"
    by (auto simp: select_nic_def fs_same_def split: sum.splits if_splits)
  with 1 show ?thesis by (rule fs_same_trans)
qed

lemma compose_unknown_policy_fs_same:
  assumes "nic_policy \<noteq> ''roundrobin''" "nic_policy \<noteq> ''random''"
    and "select_and_compose e a bucket_policy nic_policy nb bs w = (r, w')"
  shows "fs_same w w'"
proof -
  obtain r1 w1 where s: "select_nic e bucket_policy nic_policy nb bs w = (r1, w1)"
    by (rule prod.exhaust)
  from select_nic_unknown_policy_fs_same [OF assms(1,2) s] have 1: "fs_same w w1" .
  from assms(3) s 1 show ?thesis
    by (auto simp: select_and_compose_def Let_def fs_same_def
        split: option.splits sum.splits if_splits)
qed

lemma resolve_unknown_nic_policy_fs_same:
  assumes "nic_policy \<noteq> ''roundrobin''" "nic_policy \<noteq> ''random''"
  shows "fs_same w (snd (mochi_plumber_resolve_nic e a bucket_policy nic_policy w))"
proof -
  obtain r1 w1 where b: "build_buckets e bucket_policy w = (r1, w1)"
    by (rule prod.exhaust)
  note 1 = build_buckets_fs_same [OF b]
  show ?thesis
  proof (cases r1)
    case (Inl f)
    with b 1 show ?thesis by (simp add: mochi_plumber_resolve_nic_def)
  next
    case (Inr x)
    show ?thesis
    proof (cases x)
      case (Inl ret)
      with b 1 Inr show ?thesis by (simp add: mochi_plumber_resolve_nic_def)
    next
      case (Inr nbs)
      obtain nb bs where nbs: "nbs = (nb, bs)" by (rule prod.exhaust)
      obtain r2 w2 where c: "select_and_compose e a bucket_policy nic_policy nb bs w1 = (r2, w2)"
        by (rule prod.exhaust)
      from compose_unknown_policy_fs_same [OF assms c] 1 have "fs_same w w2"
        using fs_same_trans by blast
      with b c nbs Inr \<open>r1 = Inr x\<close> show ?thesis
        by (simp add: mochi_plumber_resolve_nic_def)
    qed
  qed
qed

lemma resolve_unknown_bucket_policy:
  assumes "supported_transport a" "unresolved_form a"
    and "bucket_policy \<noteq> ''all''" "bucket_policy \<noteq> ''numa''"
  shows "mochi_plumber_resolve_nic e a bucket_policy nic_policy w =
           (Inr (- 1, None),
            emit [Topology_init, Topology_load, Stderr (Unknown_bucket_policy bucket_policy),
                  Topology_destroy] w)"
  using assms eligible_iff [of a]
  by (simp add: mochi_plumber_resolve_nic_def build_buckets_def nbuckets_of_def Let_def)

lemma resolve_unknown_nic_policy_dispatch:
  assumes "supported_transport a" "unresolved_form a"
    and "nic_policy \<noteq> ''roundrobin''" "nic_policy \<noteq> ''random''"
    and "build_buckets e bucket_policy w = (Inr (Inr (nb, bs)), w5)"
    and "\<forall>j < length bs. 1 \<le> num_nics (bs ! j)"
    and "select_nic_bucket_idx e bucket_policy nb w5 = (Inr (Inr i), w6)"
    and "buckets_at bs i = Inr b" "num_nics b \<noteq> 1"
  shows "mochi_plumber_resolve_nic e a bucket_policy nic_policy w =
           (Inr (- 1, None),
            emit [Stderr (Unknown_nic_policy nic_policy), Stderr Failed_to_select_NIC,
                  Free_buckets, Topology_destroy] w6)"
proof -
  from assms(6) have none: "first_empty_bucket bs 0 = None"
    by (simp add: first_empty_bucket_None not_less)
  have sel: "select_nic e bucket_policy nic_policy nb bs w5 =
      (Inr (- 1, None), emit [Stderr (Unknown_nic_policy nic_policy)] w6)"
    using assms(3,4,7,8,9) by (simp add: select_nic_def)
  show ?thesis
    unfolding resolve_after_build [OF assms(1,2,5)] compose_no_empty [OF none sel]
    by simp
qed

text \<open>
  C3 as stated (an unrecognised NIC policy always yields a negative status) does not
  hold: with one NIC in the selected bucket, line 226 returns it before the policy
  string is looked at, and the resolution succeeds.
\<close>

theorem unknown_nic_policy_counterexample:
  "supported_transport ''cxi://'' \<and> unresolved_form ''cxi://'' \<and>
   ''bogus'' \<noteq> ''roundrobin'' \<and> ''bogus'' \<noteq> ''random'' \<and>
   mochi_plumber_resolve_nic (node [pci_nic ''cxi0'' 0]) ''cxi://'' ''all'' ''bogus'' world0 =
     (Inr (0, Some ''cxi://cxi0''),
      emit [Topology_init, Topology_load, Calloc_buckets, Fi_allocinfo, Fi_getinfo 0,
            Fi_freeinfo_hints, Fi_freeinfo_info, Free_buckets, Topology_destroy] world0)"
proof -
  let ?e = "node [pci_nic ''cxi0'' 0]"
  let ?w5 = "emit [Topology_init, Topology_load, Calloc_buckets, Fi_allocinfo, Fi_getinfo 0,
            Fi_freeinfo_hints, Fi_freeinfo_info] world0"
  have b: "build_buckets ?e ''all'' world0 =
     (Inr (Inr (1, [\<lparr>num_nics = 1, nics = [''cxi0'']\<rparr>])), ?w5)"
    by (simp add: build_eval)
  have none: "first_empty_bucket [\<lparr>num_nics = 1, nics = [''cxi0'']\<rparr>] 0 = None"
    by simp
  have sel: "select_nic ?e ''all'' ''bogus'' 1 [\<lparr>num_nics = 1, nics = [''cxi0'']\<rparr>] ?w5 =
     (Inr (0, Some ''cxi0''), ?w5)"
    by (simp add: select_nic_def select_nic_bucket_idx_def buckets_at_def nics_at_def)
  have "mochi_plumber_resolve_nic ?e ''cxi://'' ''all'' ''bogus'' world0 =
     (Inr (0, Some ''cxi://cxi0''),
      emit [Topology_init, Topology_load, Calloc_buckets, Fi_allocinfo, Fi_getinfo 0,
            Fi_freeinfo_hints, Fi_freeinfo_info, Free_buckets, Topology_destroy] world0)"
    unfolding resolve_after_build [OF cxi_eligible b] compose_no_empty [OF none sel]
    by simp
  with cxi_eligible show ?thesis by simp
qed

text \<open>
  C3, amended. For an address that is rewritten: a bucket policy other than
  \<^verbatim>\<open>"all"\<close> and \<^verbatim>\<open>"numa"\<close> always yields -1 with the diagnostic for the unknown
  bucket policy; a NIC policy other than \<^verbatim>\<open>"roundrobin"\<close> and \<^verbatim>\<open>"random"\<close> yields -1
  with the diagnostic for the unknown NIC policy whenever the buckets are built, none is
  empty and the selected bucket does not hold exactly one NIC; and in both cases,
  whatever the outcome, no counter file and no scratch directory is created or
  written, and no call to the file system is made.
\<close>

theorem config_validation:
  assumes "supported_transport a" "unresolved_form a"
  shows "(bucket_policy \<noteq> ''all'' \<and> bucket_policy \<noteq> ''numa'' \<longrightarrow>
            mochi_plumber_resolve_nic e a bucket_policy nic_policy w =
              (Inr (- 1, None),
               emit [Topology_init, Topology_load, Stderr (Unknown_bucket_policy bucket_policy),
                     Topology_destroy] w)) \<and>
         ((bucket_policy \<noteq> ''all'' \<and> bucket_policy \<noteq> ''numa'') \<or>
          (nic_policy \<noteq> ''roundrobin'' \<and> nic_policy \<noteq> ''random'') \<longrightarrow>
            fs_same w (snd (mochi_plumber_resolve_nic e a bucket_policy nic_policy w))) \<and>
         (nic_policy \<noteq> ''roundrobin'' \<and> nic_policy \<noteq> ''random'' \<longrightarrow>
            (\<forall>nb bs w5 i w6 b.
               build_buckets e bucket_policy w = (Inr (Inr (nb, bs)), w5) \<and>
               (\<forall>j < length bs. 1 \<le> num_nics (bs ! j)) \<and>
               select_nic_bucket_idx e bucket_policy nb w5 = (Inr (Inr i), w6) \<and>
               buckets_at bs i = Inr b \<and> num_nics b \<noteq> 1 \<longrightarrow>
               mochi_plumber_resolve_nic e a bucket_policy nic_policy w =
                 (Inr (- 1, None),
                  emit [Stderr (Unknown_nic_policy nic_policy), Stderr Failed_to_select_NIC,
                        Free_buckets, Topology_destroy] w6)))"
proof (intro conjI impI allI)
  assume "bucket_policy \<noteq> ''all'' \<and> bucket_policy \<noteq> ''numa''"
  then show "mochi_plumber_resolve_nic e a bucket_policy nic_policy w =
              (Inr (- 1, None),
               emit [Topology_init, Topology_load, Stderr (Unknown_bucket_policy bucket_policy),
                     Topology_destroy] w)"
    using resolve_unknown_bucket_policy [OF assms] by blast
next
  assume "(bucket_policy \<noteq> ''all'' \<and> bucket_policy \<noteq> ''numa'') \<or>
          (nic_policy \<noteq> ''roundrobin'' \<and> nic_policy \<noteq> ''random'')"
  then show "fs_same w (snd (mochi_plumber_resolve_nic e a bucket_policy nic_policy w))"
  proof
    assume "bucket_policy \<noteq> ''all'' \<and> bucket_policy \<noteq> ''numa''"
    then show ?thesis
      using resolve_unknown_bucket_policy [OF assms, of bucket_policy e nic_policy w]
      by (simp add: fs_same_emit)
  next
    assume "nic_policy \<noteq> ''roundrobin'' \<and> nic_policy \<noteq> ''random''"
    then show ?thesis
      using resolve_unknown_nic_policy_fs_same by blast
  qed
next
  fix nb bs w5 i w6 b
  assume "nic_policy \<noteq> ''roundrobin'' \<and> nic_policy \<noteq> ''random''"
    and "build_buckets e bucket_policy w = (Inr (Inr (nb, bs)), w5) \<and>
               (\<forall>j < length bs. 1 \<le> num_nics (bs ! j)) \<and>
               select_nic_bucket_idx e bucket_policy nb w5 = (Inr (Inr i), w6) \<and>
               buckets_at bs i = Inr b \<and> num_nics b \<noteq> 1"
  then show "mochi_plumber_resolve_nic e a bucket_policy nic_policy w =
                 (Inr (- 1, None),
                  emit [Stderr (Unknown_nic_policy nic_policy), Stderr Failed_to_select_NIC,
                        Free_buckets, Topology_destroy] w6)"
    using resolve_unknown_nic_policy_dispatch [OF assms] by blast
qed

theorem config_validation_witness:
  "mochi_plumber_resolve_nic (node [pci_nic ''cxi0'' 0, pci_nic ''cxi1'' 1]) ''cxi://'' ''bogus''
       ''roundrobin'' world0 =
     (Inr (- 1, None),
      emit [Topology_init, Topology_load, Stderr (Unknown_bucket_policy ''bogus''),
            Topology_destroy] world0) \<and>
   mochi_plumber_resolve_nic (node [pci_nic ''cxi0'' 0, pci_nic ''cxi1'' 1]) ''cxi://'' ''all''
       ''bogus'' world0 =
     (Inr (- 1, None),
      emit [Topology_init, Topology_load, Calloc_buckets, Fi_allocinfo, Fi_getinfo 0,
            Fi_freeinfo_hints, Fi_freeinfo_info,
            Stderr (Unknown_nic_policy ''bogus''), Stderr Failed_to_select_NIC,
            Free_buckets, Topology_destroy] world0) \<and>
   fs_same world0
     (snd (mochi_plumber_resolve_nic (node [pci_nic ''cxi0'' 0, pci_nic ''cxi1'' 1]) ''cxi://''
        ''all'' ''bogus'' world0))"
proof -
  let ?e = "node [pci_nic ''cxi0'' 0, pci_nic ''cxi1'' 1]"
  let ?b = "\<lparr>num_nics = 2, nics = [''cxi0'', ''cxi1'']\<rparr>"
  let ?w5 = "emit [Topology_init, Topology_load, Calloc_buckets, Fi_allocinfo, Fi_getinfo 0,
            Fi_freeinfo_hints, Fi_freeinfo_info] world0"
  have bp: "''bogus'' \<noteq> ''all'' \<and> ''bogus'' \<noteq> ''numa''"
    and np: "''bogus'' \<noteq> ''roundrobin'' \<and> ''bogus'' \<noteq> ''random''"
    by simp_all
  have path: "build_buckets ?e ''all'' world0 = (Inr (Inr (1, [?b])), ?w5) \<and>
      (\<forall>j < length [?b]. 1 \<le> num_nics ([?b] ! j)) \<and>
      select_nic_bucket_idx ?e ''all'' 1 ?w5 = (Inr (Inr 0), ?w5) \<and>
      buckets_at [?b] 0 = Inr ?b \<and> num_nics ?b \<noteq> 1"
    by (simp add: build_eval select_nic_bucket_idx_def)
  from config_validation [OF cxi_eligible, where bucket_policy = "''bogus''" and e = ?e
      and nic_policy = "''roundrobin''" and w = world0] bp
  have 1: "mochi_plumber_resolve_nic ?e ''cxi://'' ''bogus'' ''roundrobin'' world0 =
     (Inr (- 1, None),
      emit [Topology_init, Topology_load, Stderr (Unknown_bucket_policy ''bogus''),
            Topology_destroy] world0)"
    by blast
  from config_validation [OF cxi_eligible, where bucket_policy = "''all''" and e = ?e
      and nic_policy = "''bogus''" and w = world0] np path
  have 2: "fs_same world0 (snd (mochi_plumber_resolve_nic ?e ''cxi://'' ''all'' ''bogus'' world0))"
    and 3: "mochi_plumber_resolve_nic ?e ''cxi://'' ''all'' ''bogus'' world0 =
     (Inr (- 1, None),
      emit [Stderr (Unknown_nic_policy ''bogus''), Stderr Failed_to_select_NIC,
            Free_buckets, Topology_destroy] ?w5)"
    by blast+
  from 1 2 3 show ?thesis by simp
qed

subsection \<open>Failures and resources of the round-robin selection\<close>

lemmas roundrobin_eval = select_nic_roundrobin_def sys_defs node_def world0_def emit_def
  nics_at_def INT_MAX_def signed_modulo_int_def

text \<open>
  A failure of \<^verbatim>\<open>mkdir\<close> (other than EEXIST), of \<^verbatim>\<open>open\<close> or of \<^verbatim>\<open>pread\<close> makes
  the call return -1 with no NIC, and so does a failure of \<^verbatim>\<open>pwrite\<close> when the
  computation of the next index is defined. (After a failed \<^verbatim>\<open>open\<close> the source
  prints and goes on; it is the \<^verbatim>\<open>pread\<close> on the bad descriptor that returns -1.)
\<close>

theorem roundrobin_io_failure_aborts:
  assumes "mkdir_fails e \<or> open_ret e < 0 \<or> \<not> pread_ok e \<or>
           (\<not> pwrite_ok e \<and> counter_value w i < INT_MAX \<and> num_nics b \<noteq> 0)"
  shows "fst (select_nic_roundrobin e i b w) = Inr (- 1, None)"
  using assms
  by (auto simp: select_nic_roundrobin_def counter_value_def sys_defs Let_def
      split: option.splits prod.splits)

theorem roundrobin_io_failure_aborts_witness:
  "\<not> pread_ok ((node [])\<lparr>pread_ok := False\<rparr>) \<and>
   fst (select_nic_roundrobin ((node [])\<lparr>pread_ok := False\<rparr>) 0
          \<lparr>num_nics = 2, nics = [''cxi0'', ''cxi1'']\<rparr> world0) = Inr (- 1, None)"
proof -
  have "\<not> pread_ok ((node [])\<lparr>pread_ok := False\<rparr>)" by simp
  then show ?thesis
    using roundrobin_io_failure_aborts [of "(node [])\<lparr>pread_ok := False\<rparr>" world0 0
        "\<lparr>num_nics = 2, nics = [''cxi0'', ''cxi1'']\<rparr>"]
    by blast
qed

text \<open>
  C7. The claim says that a failure to acquire the lock aborts the call. The value
  returned by \<^verbatim>\<open>flock(fd, LOCK_EX)\<close> at line 267 is not looked at: in a call where
  \<^verbatim>\<open>flock\<close> fails and everything else succeeds, on a bucket of two NICs with no counter
  file, the counter is read and written without the lock and the call returns status 0
  with the first NIC.
\<close>

theorem roundrobin_flock_failure_ignored:
  "fst (select_nic_roundrobin ((node [])\<lparr>flock_ok := False\<rparr>) 0
          \<lparr>num_nics = 2, nics = [''cxi0'', ''cxi1'']\<rparr> world0) = Inr (0, Some ''cxi0'') \<and>
   trace (snd (select_nic_roundrobin ((node [])\<lparr>flock_ok := False\<rparr>) 0
          \<lparr>num_nics = 2, nics = [''cxi0'', ''cxi1'']\<rparr> world0)) =
     [Sys_mkdir, Sys_open 0 3, Sys_flock_ex 3 False, Sys_pread 3, Sys_pwrite 3, Sys_flock_un 3] \<and>
   files (snd (select_nic_roundrobin ((node [])\<lparr>flock_ok := False\<rparr>) 0
          \<lparr>num_nics = 2, nics = [''cxi0'', ''cxi1'']\<rparr> world0)) 0 = Some (Some 0)"
  by (simp add: roundrobin_eval)

text \<open>
  C8. The claim says that the open descriptor is closed on every exit path. The source
  has no call of \<^verbatim>\<open>close\<close>: the calls made by a successful resolution through the
  round-robin selection are these, with the descriptor 3 opened and unlocked but never
  closed. The topology, the enumeration results and the lock are released.
\<close>

theorem descriptor_never_closed:
  "mochi_plumber_resolve_nic (node [pci_nic ''cxi0'' 0, pci_nic ''cxi1'' 1]) ''cxi://'' ''all''
       ''roundrobin'' world0 =
     (Inr (0, Some ''cxi://cxi0''),
      \<lparr>dir_exists = True,
       files = (\<lambda>i. None)(0 := Some (Some 0)),
       trace = [Topology_init, Topology_load, Calloc_buckets, Fi_allocinfo, Fi_getinfo 0,
                Fi_freeinfo_hints, Fi_freeinfo_info,
                Sys_mkdir, Sys_open 0 3, Sys_flock_ex 3 True, Sys_pread 3, Sys_pwrite 3,
                Sys_flock_un 3,
                Free_buckets, Topology_destroy]\<rparr>)"
proof -
  let ?e = "node [pci_nic ''cxi0'' 0, pci_nic ''cxi1'' 1]"
  let ?b = "\<lparr>num_nics = 2, nics = [''cxi0'', ''cxi1'']\<rparr>"
  let ?w5 = "emit [Topology_init, Topology_load, Calloc_buckets, Fi_allocinfo, Fi_getinfo 0,
            Fi_freeinfo_hints, Fi_freeinfo_info] world0"
  have b: "build_buckets ?e ''all'' world0 = (Inr (Inr (1, [?b])), ?w5)"
    by (simp add: build_eval)
  have none: "first_empty_bucket [?b] 0 = None"
    by simp
  have rr: "select_nic_roundrobin ?e 0 ?b ?w5 =
     (Inr (0, Some ''cxi0''),
      \<lparr>dir_exists = True,
       files = (\<lambda>i. None)(0 := Some (Some 0)),
       trace = [Topology_init, Topology_load, Calloc_buckets, Fi_allocinfo, Fi_getinfo 0,
                Fi_freeinfo_hints, Fi_freeinfo_info,
                Sys_mkdir, Sys_open 0 3, Sys_flock_ex 3 True, Sys_pread 3, Sys_pwrite 3,
                Sys_flock_un 3]\<rparr>)"
    by (simp add: roundrobin_eval)
  have sel: "select_nic ?e ''all'' ''roundrobin'' 1 [?b] ?w5 = select_nic_roundrobin ?e 0 ?b ?w5"
    by (simp add: select_nic_def select_nic_bucket_idx_def buckets_at_def)
  show ?thesis
    unfolding resolve_after_build [OF cxi_eligible b] compose_no_empty [OF none sel [unfolded rr]]
    by (simp add: emit_def)
qed

text \<open>No path of \<^verbatim>\<open>select_nic\<close> closes a descriptor.\<close>

lemma never_closes_select:
  assumes "select_nic e bucket_policy nic_policy nb bs w = (r, w')"
  shows "\<exists>es. trace w' = trace w @ es \<and> (\<forall>fd. Sys_close fd \<notin> set es)"
  using assms
  by (auto simp: select_nic_def select_nic_bucket_idx_def select_nic_roundrobin_def
      select_nic_random_def sys_defs Let_def
      split: if_splits sum.splits prod.splits option.splits)

lemma holds_lock_append: "holds_lock h (xs @ ys) = holds_lock (holds_lock h xs) ys"
  by (induction h xs rule: holds_lock.induct) simp_all

lemma balanced_append: "balanced xs \<Longrightarrow> balanced ys \<Longrightarrow> balanced (xs @ ys)"
  by (simp add: balanced_def)

lemma select_nic_released:
  assumes "select_nic e bucket_policy nic_policy nb bs w = (Inr r, w')"
  shows "\<exists>es. trace w' = trace w @ es \<and> balanced es \<and> \<not> holds_lock False es"
  using assms
  by (auto simp: select_nic_def select_nic_bucket_idx_def select_nic_roundrobin_def
      select_nic_random_def sys_defs Let_def balanced_def
      split: if_splits sum.splits prod.splits option.splits)

lemma build_buckets_released:
  assumes "build_buckets e bucket_policy w = (r, w')"
  shows "(\<forall>ret. r = Inr (Inl ret) \<longrightarrow>
            (\<exists>es. trace w' = trace w @ es \<and> balanced es \<and> \<not> holds_lock False es)) \<and>
         (\<forall>nbs. r = Inr (Inr nbs) \<longrightarrow>
            trace w' = trace w @ [Topology_init, Topology_load, Calloc_buckets, Fi_allocinfo,
              Fi_getinfo 0, Fi_freeinfo_hints, Fi_freeinfo_info])"
  using assms
  by (auto simp: build_buckets_def Let_def balanced_def
      split: option.splits if_splits sum.splits)

text \<open>
  Every return of \<^verbatim>\<open>mochi_plumber_resolve_nic\<close> has released what the call acquired,
  the descriptor apart: in the calls it made, the topology, the bucket array, the hints,
  the enumeration results and the bitmaps are released as often as acquired, and the
  lock is not held at the end.
\<close>

theorem resources_released:
  assumes "mochi_plumber_resolve_nic e a bucket_policy nic_policy w = (Inr r, w')"
  shows "\<exists>es. trace w' = trace w @ es \<and> balanced es \<and> \<not> holds_lock False es"
proof (cases "not_cxi a \<or> already_specific a")
  case True
  with assms have "w' = w" by (auto simp: mochi_plumber_resolve_nic_def split: if_splits)
  then have "trace w' = trace w @ [] \<and> balanced [] \<and> \<not> holds_lock False []"
    by (simp add: balanced_def)
  then show ?thesis by blast
next
  case False
  obtain r1 w5 where b: "build_buckets e bucket_policy w = (r1, w5)"
    by (rule prod.exhaust)
  note br = build_buckets_released [OF b]
  show ?thesis
  proof (cases r1)
    case (Inl f)
    with assms False b show ?thesis by (simp add: mochi_plumber_resolve_nic_def)
  next
    case (Inr x)
    show ?thesis
    proof (cases x)
      case (Inl ret)
      with assms False b Inr have "w' = w5" by (simp add: mochi_plumber_resolve_nic_def)
      with br Inr Inl show ?thesis by blast
    next
      case (Inr nbs)
      obtain nb bs where nbs: "nbs = (nb, bs)" by (rule prod.exhaust)
      let ?pre = "[Topology_init, Topology_load, Calloc_buckets, Fi_allocinfo,
              Fi_getinfo 0, Fi_freeinfo_hints, Fi_freeinfo_info]"
      from br Inr \<open>r1 = Inr x\<close> have t5: "trace w5 = trace w @ ?pre" by blast
      from assms False b Inr \<open>r1 = Inr x\<close> nbs
      have c: "select_and_compose e a bucket_policy nic_policy nb bs w5 = (Inr r, w')"
        by (simp add: mochi_plumber_resolve_nic_def)
      show ?thesis
      proof (cases "first_empty_bucket bs 0")
        case (Some i)
        with c have "w' = emit [Stderr (Bucket_has_no_NICs i), Free_buckets, Topology_destroy] w5"
          by (simp add: select_and_compose_def)
        with t5 have "trace w' = trace w @ (?pre @ [Stderr (Bucket_has_no_NICs i), Free_buckets, Topology_destroy])"
          by simp
        moreover have "balanced (?pre @ [Stderr (Bucket_has_no_NICs i), Free_buckets, Topology_destroy])"
          "\<not> holds_lock False (?pre @ [Stderr (Bucket_has_no_NICs i), Free_buckets, Topology_destroy])"
          by (simp_all add: balanced_def)
        ultimately show ?thesis by blast
      next
        case None
        obtain r2 w6 where sel: "select_nic e bucket_policy nic_policy nb bs w5 = (r2, w6)"
          by (rule prod.exhaust)
        from c have "\<exists>r3. r2 = Inr r3"
          unfolding compose_no_empty [OF None sel] by (cases r2) simp_all
        then obtain r3 where r2: "r2 = Inr r3" ..
        from select_nic_released [OF sel [unfolded r2]] obtain es1 where
          es1: "trace w6 = trace w5 @ es1" "balanced es1" "\<not> holds_lock False es1"
          by blast
        from c have "\<exists>post. w' = emit post w6 \<and>
            (post = [Stderr Failed_to_select_NIC, Free_buckets, Topology_destroy] \<or>
             post = [Free_buckets, Topology_destroy])"
          unfolding compose_no_empty [OF None sel] r2
          by (auto split: prod.splits if_splits option.splits)
        then obtain post where post: "w' = emit post w6"
          "post = [Stderr Failed_to_select_NIC, Free_buckets, Topology_destroy] \<or>
           post = [Free_buckets, Topology_destroy]"
          by blast
        from post(1) es1(1) t5 have "trace w' = trace w @ (?pre @ es1 @ post)"
          by simp
        moreover from post(2) es1(2) have "balanced (?pre @ es1 @ post)"
          by (auto simp: balanced_def)
        moreover from post(2) es1(3) have "\<not> holds_lock False (?pre @ es1 @ post)"
          by (auto simp: holds_lock_append)
        ultimately show ?thesis by blast
      qed
    qed
  qed
qed

theorem resources_released_witness:
  "fst (mochi_plumber_resolve_nic (node [pci_nic ''cxi0'' 0, pci_nic ''cxi1'' 1, pci_nic ''cxi2'' 2])
          ''cxi://'' ''numa'' ''roundrobin'' world0) = Inr (0, Some ''cxi://cxi0'') \<and>
   (\<exists>es. trace (snd (mochi_plumber_resolve_nic
                 (node [pci_nic ''cxi0'' 0, pci_nic ''cxi1'' 1, pci_nic ''cxi2'' 2])
                 ''cxi://'' ''numa'' ''roundrobin'' world0)) = trace world0 @ es \<and>
         balanced es \<and> \<not> holds_lock False es)"
proof -
  let ?e = "node [pci_nic ''cxi0'' 0, pci_nic ''cxi1'' 1, pci_nic ''cxi2'' 2]"
  let ?bs = "[\<lparr>num_nics = 2, nics = [''cxi0'', ''cxi2'']\<rparr>, \<lparr>num_nics = 1, nics = [''cxi1'']\<rparr>]"
  let ?w5 = "emit [Topology_init, Topology_load, Calloc_buckets, Fi_allocinfo, Fi_getinfo 0,
            Fi_freeinfo_hints, Fi_freeinfo_info] world0"
  let ?run = "mochi_plumber_resolve_nic ?e ''cxi://'' ''numa'' ''roundrobin'' world0"
  have b: "build_buckets ?e ''numa'' world0 = (Inr (Inr (2, ?bs)), ?w5)"
    by (simp add: build_eval eval_nat_numeral)
  have none: "first_empty_bucket ?bs 0 = None"
    by simp
  obtain r w6 where sel: "select_nic ?e ''numa'' ''roundrobin'' 2 ?bs ?w5 = (r, w6)"
    by (rule prod.exhaust)
  have "fst (select_nic ?e ''numa'' ''roundrobin'' 2 ?bs ?w5) = Inr (0, Some ''cxi0'')"
    by (simp add: select_nic_def select_nic_bucket_idx_def buckets_at_def roundrobin_eval
        split_beta)
  with sel have r: "r = Inr (0, Some ''cxi0'')" by simp
  have f: "fst ?run = Inr (0, Some ''cxi://cxi0'')"
    unfolding resolve_after_build [OF cxi_eligible b] compose_no_empty [OF none sel] r
    by simp
  then have "?run = (Inr (0, Some ''cxi://cxi0''), snd ?run)"
    by (metis prod.collapse)
  from resources_released [OF this] f show ?thesis by blast
qed

subsection \<open>Random selection\<close>

text \<open>
  Under the random policy the index drawn is \<^verbatim>\<open>rand() % N\<close>, inside \<open>[0, N)\<close>, and
  the world is not touched.
\<close>

theorem select_nic_random_in_range:
  assumes "0 < num_nics b" "num_nics b = int (length (nics b))"
  shows "select_nic_random e i b w =
           (Inr (0, Some (nics b ! (rand_value e mod length (nics b)))), w) \<and>
         rand_value e mod length (nics b) < length (nics b)"
proof -
  have s: "int (rand_value e) smod num_nics b = int (rand_value e mod length (nics b))"
    using assms by (simp add: smod_nonneg zmod_int)
  from assms have "rand_value e mod length (nics b) < length (nics b)" by simp
  with assms s show ?thesis
    by (simp add: select_nic_random_def nics_at_def)
qed

theorem select_nic_random_in_range_witness:
  "0 < num_nics \<lparr>num_nics = 3, nics = [''cxi0'', ''cxi1'', ''cxi2'']\<rparr> \<and>
   select_nic_random ((node [])\<lparr>rand_value := 1804289383\<rparr>) 0
       \<lparr>num_nics = 3, nics = [''cxi0'', ''cxi1'', ''cxi2'']\<rparr> world0 =
     (Inr (0, Some ''cxi1''), world0)"
proof -
  let ?b = "\<lparr>num_nics = 3, nics = [''cxi0'', ''cxi1'', ''cxi2'']\<rparr>"
  have h: "0 < num_nics ?b" "num_nics ?b = int (length (nics ?b))" by simp_all
  from select_nic_random_in_range [OF h, of "(node [])\<lparr>rand_value := 1804289383\<rparr>" 0 world0] h(1)
  show ?thesis by simp
qed

subsection \<open>Affinity domains that are not bucket indices\<close>

text \<open>
  C5. The claim says that with \<^verbatim>\<open>"numa"\<close>, for every set of enumerated NICs, every NIC
  with PCI bus data is placed in the bucket whose index equals its affinity domain.
  Line 146 takes the first node of the device's nodeset as \<^verbatim>\<open>bucket_idx\<close> and line 149
  indexes the array of \<open>nodeset_weight\<close> buckets with it, without the test that
  \<^verbatim>\<open>select_nic\<close> makes at line 215. On a node with two NUMA domains numbered 0 and 8,
  the NIC on domain 8 is written outside the array of two buckets: no bucket holds it,
  and the behaviour of the call is undefined.
\<close>

theorem numa_domain_outside_buckets:
  "nodeset_weight ((node [pci_nic ''cxi0'' 0, pci_nic ''cxi1'' 1])
      \<lparr>ancestor_first_node := \<lambda>d. int (8 * d)\<rparr>) = 2 \<and>
   affinity_domain ((node [pci_nic ''cxi0'' 0, pci_nic ''cxi1'' 1])
      \<lparr>ancestor_first_node := \<lambda>d. int (8 * d)\<rparr>) (pci_nic ''cxi0'' 0) = Some 0 \<and>
   affinity_domain ((node [pci_nic ''cxi0'' 0, pci_nic ''cxi1'' 1])
      \<lparr>ancestor_first_node := \<lambda>d. int (8 * d)\<rparr>) (pci_nic ''cxi1'' 1) = Some 8 \<and>
   build_buckets ((node [pci_nic ''cxi0'' 0, pci_nic ''cxi1'' 1])
      \<lparr>ancestor_first_node := \<lambda>d. int (8 * d)\<rparr>) ''numa'' world0 =
     (Inl Out_of_bounds,
      emit [Topology_init, Topology_load, Calloc_buckets, Fi_allocinfo, Fi_getinfo 0,
            Fi_freeinfo_hints] world0) \<and>
   fst (mochi_plumber_resolve_nic ((node [pci_nic ''cxi0'' 0, pci_nic ''cxi1'' 1])
      \<lparr>ancestor_first_node := \<lambda>d. int (8 * d)\<rparr>) ''cxi://'' ''numa'' ''roundrobin'' world0) =
     Inl Out_of_bounds"
proof -
  let ?e = "(node [pci_nic ''cxi0'' 0, pci_nic ''cxi1'' 1])
      \<lparr>ancestor_first_node := \<lambda>d. int (8 * d)\<rparr>"
  have w: "nodeset_weight ?e = 2"
    by (simp add: node_def)
  have a: "affinity_domain ?e (pci_nic ''cxi0'' 0) = Some 0"
    "affinity_domain ?e (pci_nic ''cxi1'' 1) = Some 8"
    by (simp_all add: affinity_domain_def pci_of_def pci_nic_def node_def)
  have b: "build_buckets ?e ''numa'' world0 =
     (Inl Out_of_bounds,
      emit [Topology_init, Topology_load, Calloc_buckets, Fi_allocinfo, Fi_getinfo 0,
            Fi_freeinfo_hints] world0)"
    by (simp add: build_eval eval_nat_numeral)
  have el: "\<not> not_cxi ''cxi://''" "\<not> already_specific ''cxi://''"
    using cxi_eligible eligible_iff by blast+
  have r: "fst (mochi_plumber_resolve_nic ?e ''cxi://'' ''numa'' ''roundrobin'' world0) =
     Inl Out_of_bounds"
    unfolding mochi_plumber_resolve_nic_def b using el by simp
  from w a b r show ?thesis by blast
qed

end
